theory Spec2Isabelle
  imports Main "HOL-Library.AList" "HOL-Library.Sublist"
begin

section \<open>Values, errors and the remote service\<close>

text \<open>
  The program of \<^verbatim>\<open>snapshot.py\<close> is a sequential client of an HTTP service. The
  embedding keeps the program's own control flow and makes its surroundings explicit:
  \<^item> a decoded JSON document is a value of \<open>json\<close>; subscripting it fails the way Python
    does (\<open>KeyError\<close>, \<open>IndexError\<close>, \<open>TypeError\<close>);
  \<^item> every exception is a value of \<open>py_error\<close>, returned as \<open>Inl\<close>;
  \<^item> the service is a script \<open>server :: nat \<Rightarrow> reply\<close>: the reply to the \<open>n\<close>-th request
    the process sends. The client is sequential and deterministic, so every behaviour of
    a real service during one run is one such script;
  \<^item> everything observable is appended to \<open>trace\<close>: each exchange with its request
    arguments and its reply, each \<open>print\<close>, each \<open>sleep\<close>, each file written.
\<close>

datatype json =
    JNull
  | JBool bool
  | JNum int
  | JStr string
  | JArr "json list"
  | JObj "(string \<times> json) list"

datatype py_error =
    HTTPError (code: nat)
  | ConnectionError
  | AttributeError
  | KeyError
  | TypeError
  | IndexError
  | JSONDecodeError

datatype key = K string | I nat

text \<open>\<open>j[k]\<close> for a decoded JSON value \<open>j\<close>.\<close>

fun getitem :: "json \<Rightarrow> key \<Rightarrow> py_error + json" where
  "getitem (JObj kvs) (K k) = (case map_of kvs k of None \<Rightarrow> Inl KeyError | Some v \<Rightarrow> Inr v)"
| "getitem (JObj kvs) (I n) = Inl KeyError"
| "getitem (JArr xs) (I n) = (if n < length xs then Inr (xs ! n) else Inl IndexError)"
| "getitem (JArr xs) (K k) = Inl TypeError"
| "getitem (JStr s) (I n) = (if n < length s then Inr (JStr [s ! n]) else Inl IndexError)"
| "getitem (JStr s) (K k) = Inl TypeError"
| "getitem JNull k = Inl TypeError"
| "getitem (JBool b) k = Inl TypeError"
| "getitem (JNum i) k = Inl TypeError"

text \<open>A chain of subscripts \<open>j[k1][k2]...\<close>, evaluated left to right.\<close>

fun path_get :: "json \<Rightarrow> key list \<Rightarrow> py_error + json" where
  "path_get j [] = Inr j"
| "path_get j (k # ks) = (case getitem j k of Inl e \<Rightarrow> Inl e | Inr v \<Rightarrow> path_get v ks)"

text \<open>
  The operand \<open>x\<close> of a string concatenation \<open>s + x\<close>: a \<open>TypeError\<close> unless \<open>x\<close> is
  a string.
\<close>

fun as_str :: "json \<Rightarrow> py_error + string" where
  "as_str (JStr t) = Inr t"
| "as_str JNull = Inl TypeError"
| "as_str (JBool b) = Inl TypeError"
| "as_str (JNum i) = Inl TypeError"
| "as_str (JArr xs) = Inl TypeError"
| "as_str (JObj kvs) = Inl TypeError"

text \<open>Iterating a decoded JSON value, as the list comprehensions of \<open>download_surveys\<close> do.\<close>

fun py_iter :: "json \<Rightarrow> py_error + json list" where
  "py_iter (JArr xs) = Inr xs"
| "py_iter (JObj kvs) = Inr (map (\<lambda>kv. JStr (fst kv)) kvs)"
| "py_iter (JStr s) = Inr (map (\<lambda>c. JStr [c]) s)"
| "py_iter JNull = Inl TypeError"
| "py_iter (JBool b) = Inl TypeError"
| "py_iter (JNum i) = Inl TypeError"

text \<open>\<open>[x["id"] for x in xs]\<close>: the first failing subscript raises.\<close>

fun ids_of :: "json list \<Rightarrow> py_error + json list" where
  "ids_of [] = Inr []"
| "ids_of (x # xs) =
     (case getitem x (K ''id'') of
        Inl e \<Rightarrow> Inl e
      | Inr v \<Rightarrow> (case ids_of xs of Inl e \<Rightarrow> Inl e | Inr vs \<Rightarrow> Inr (v # vs)))"

text \<open>
  A response of the \<open>requests\<close> library: its status code, what \<open>.json()\<close> returns
  (\<open>None\<close> when the body is not JSON) and its bytes.
\<close>

datatype response = Response (status_code: nat) (body: "json option") (content: string)

datatype reply = Reply response | NoReply

text \<open>
  \<open>response.raise_for_status()\<close> raises an \<open>HTTPError\<close> for the client and server error
  codes, 400 to 599.
\<close>

definition http_error :: "response \<Rightarrow> bool" where
  "http_error r = (400 \<le> status_code r \<and> status_code r < 600)"

definition raise_for_status :: "response \<Rightarrow> py_error + unit" where
  "raise_for_status r = (if http_error r then Inl (HTTPError (status_code r)) else Inr ())"

definition json_path :: "response \<Rightarrow> key list \<Rightarrow> py_error + json" where
  "json_path r ks = (case body r of None \<Rightarrow> Inl JSONDecodeError | Some j \<Rightarrow> path_get j ks)"

type_synonym dict = "(string \<times> string) list"

datatype printarg = S string | J json | E py_error

datatype event =
    Auth string string "dict option" reply
  | Api string string "dict option" "dict option" "(string \<times> json) list option"
      "json option" bool reply
  | Print "printarg list"
  | Sleep nat
  | FileWrite string string

record world =
  server :: "nat \<Rightarrow> reply"
  nreq :: nat
  trace :: "event list"
  files :: "string \<rightharpoonup> string"
  today :: "nat \<times> nat \<times> nat"

definition print :: "printarg list \<Rightarrow> world \<Rightarrow> world" where
  "print args w = w\<lparr>trace := trace w @ [Print args]\<rparr>"

definition sleep :: "nat \<Rightarrow> world \<Rightarrow> world" where
  "sleep n w = w\<lparr>trace := trace w @ [Sleep n]\<rparr>"

text \<open>
  \<open>with open(filename, 'wb') as f: for x in chunks: f.write(x)\<close>: the file is created
  or truncated and holds the chunks in order.
\<close>

definition write_file :: "string \<Rightarrow> string list \<Rightarrow> world \<Rightarrow> world" where
  "write_file filename chunks w =
     w\<lparr>files := (files w)(filename \<mapsto> concat chunks),
       trace := trace w @ [FileWrite filename (concat chunks)]\<rparr>"

text \<open>\<open>response.iter_content(n)\<close>: the body in pieces of \<open>n\<close> bytes.\<close>

fun iter_content :: "nat \<Rightarrow> string \<Rightarrow> string list" where
  "iter_content n xs =
     (if n = 0 \<or> xs = [] then [] else take n xs # iter_content n (drop n xs))"

declare iter_content.simps [simp del]

text \<open>\<open>s.replace(old, new)\<close> for a non-empty \<open>old\<close> (the source's are literals).\<close>

fun str_replace :: "string \<Rightarrow> string \<Rightarrow> string \<Rightarrow> string" where
  "str_replace [] old new = []"
| "str_replace (c # cs) old new =
     (if old \<noteq> [] \<and> prefix old (c # cs)
      then new @ str_replace (drop (length old - 1) cs) old new
      else c # str_replace cs old new)"

fun str_nat :: "nat \<Rightarrow> string" where
  "str_nat n =
     (if n < 10 then [''0123456789'' ! n]
      else str_nat (n div 10) @ [''0123456789'' ! (n mod 10)])"

declare str_nat.simps [simp del]

definition pad2 :: "nat \<Rightarrow> string" where
  "pad2 n = (if n < 10 then ''0'' @ str_nat n else str_nat n)"

section \<open>The class \<open>LeanIX\<close>\<close>

type_synonym config = "(string \<times> (string \<times> string) list) list"

record LeanIX =
  config :: config
  instance' :: string
  base_path :: string
  poll_url :: string
  apitoken :: string
  header :: "dict option"
  timeout :: int
  proxies :: "dict option"

text \<open>\<open>config[section][option]\<close>; \<open>configparser\<close> returns every value as a string.\<close>

definition config_get :: "config \<Rightarrow> string \<Rightarrow> string \<Rightarrow> py_error + string" where
  "config_get c sec k =
     (case map_of c sec of
        None \<Rightarrow> Inl KeyError
      | Some opts \<Rightarrow> (case map_of opts k of None \<Rightarrow> Inl KeyError | Some v \<Rightarrow> Inr v))"

text \<open>
  Python objects as far as \<open>__init__\<close> tells them apart: \<open>x is True\<close> holds of the
  boolean \<open>True\<close> only, never of a string.
\<close>

datatype pyobj = PyStr string | PyBool bool

definition is_True :: "pyobj \<Rightarrow> bool" where
  "is_True x = (x = PyBool True)"

definition init :: "config \<Rightarrow> py_error + LeanIX" where
  "init cfg =
     (case config_get cfg ''MANDATORY'' ''HOSTNAME'' of Inl e \<Rightarrow> Inl e | Inr host \<Rightarrow>
      case config_get cfg ''MANDATORY'' ''APITOKEN'' of Inl e \<Rightarrow> Inl e | Inr tok \<Rightarrow>
      case config_get cfg ''MANDATORY'' ''HTTP_PROXY'' of Inl e \<Rightarrow> Inl e | Inr http_proxy \<Rightarrow>
      case config_get cfg ''MANDATORY'' ''HTTPS_PROXY'' of Inl e \<Rightarrow> Inl e | Inr https_proxy \<Rightarrow>
      case config_get cfg ''MANDATORY'' ''PROXY_REQUIRED'' of Inl e \<Rightarrow> Inl e | Inr proxy_required \<Rightarrow>
      Inr \<lparr>config = cfg,
           instance' = host,
           base_path = ''/services/pathfinder/v1'',
           poll_url = ''/services/poll/v2'',
           apitoken = tok,
           header = None,
           timeout = 7200,
           proxies = (if is_True (PyStr proxy_required)
                      then Some [(''http'', http_proxy), (''https'', https_proxy)]
                      else None)\<rparr>)"

text \<open>One exchange with the service: the next reply of the script, recorded in the trace.\<close>

definition exchange :: "(reply \<Rightarrow> event) \<Rightarrow> world \<Rightarrow> reply \<times> world" where
  "exchange ev w =
     (let rp = server w (nreq w)
      in (rp, w\<lparr>nreq := Suc (nreq w), trace := trace w @ [ev rp]\<rparr>))"

definition connect :: "LeanIX \<Rightarrow> world \<Rightarrow> (py_error + unit) \<times> LeanIX \<times> world" where
  "connect self w =
     (let auth_url = instance' self @ ''/services/mtm/v1/oauth2/token''
      in case exchange (Auth auth_url (apitoken self) (proxies self)) w of
           (NoReply, w1) \<Rightarrow> (Inl ConnectionError, self, w1)
         | (Reply resp, w1) \<Rightarrow>
             (case raise_for_status resp of
                Inl e \<Rightarrow> (Inl e, self, w1)
              | Inr _ \<Rightarrow>
                  (case json_path resp [K ''access_token''] of
                     Inl e \<Rightarrow> (Inl e, self, w1)
                   | Inr tok \<Rightarrow>
                       (case as_str tok of
                          Inl e \<Rightarrow> (Inl e, self, w1)
                        | Inr access_token \<Rightarrow>
                            (Inr (),
                             self\<lparr>header := Some [(''Authorization'', ''Bearer '' @ access_token)]\<rparr>,
                             w1)))))"

definition get_today_date :: "world \<Rightarrow> string" where
  "get_today_date w =
     (case today w of (y, m, d) \<Rightarrow> str_nat y @ ''-'' @ pad2 m @ ''-'' @ pad2 d)"

text \<open>
  \<open>requests.get\<close>, \<open>requests.post\<close>, \<open>requests.put\<close> with the keyword arguments the
  gateway passes; \<open>None\<close> is the response that was never assigned.
\<close>

definition requests :: "string \<Rightarrow> string \<Rightarrow> dict option \<Rightarrow> dict option \<Rightarrow>
    (string \<times> json) list option \<Rightarrow> json option \<Rightarrow> bool \<Rightarrow> world \<Rightarrow> (py_error + response) \<times> world" where
  "requests method url headers prox params data stream w =
     (case exchange (Api method url headers prox params data stream) w of
        (NoReply, w1) \<Rightarrow> (Inl ConnectionError, w1)
      | (Reply resp, w1) \<Rightarrow> (Inr resp, w1))"

definition access_leanix_api :: "LeanIX \<Rightarrow> world \<Rightarrow> string \<Rightarrow> string \<Rightarrow> json option \<Rightarrow>
    (string \<times> json) list option \<Rightarrow> bool \<Rightarrow> (py_error + response) \<times> world" where
  "access_leanix_api self w url method data params stream =
     (case
        (if method = ''GET''
           then (case requests ''GET'' url (header self) (proxies self) params data stream w of
                   (Inl e, w1) \<Rightarrow> (Inl e, w1) | (Inr r, w1) \<Rightarrow> (Inr (Some r), w1))
         else if method = ''POST''
           then (case requests ''POST'' url (header self) (proxies self) params data stream w of
                   (Inl e, w1) \<Rightarrow> (Inl e, w1) | (Inr r, w1) \<Rightarrow> (Inr (Some r), w1))
         else if method = ''PUT''
           then (case requests ''PUT'' url (header self) (proxies self) params data stream w of
                   (Inl e, w1) \<Rightarrow> (Inl e, w1) | (Inr r, w1) \<Rightarrow> (Inr (Some r), w1))
         else (Inr None, w))
      of
        (Inl e, w1) \<Rightarrow> (Inl e, w1)
      | (Inr None, w1) \<Rightarrow> (Inl AttributeError, w1)
      | (Inr (Some resp), w1) \<Rightarrow>
          (case raise_for_status resp of Inl e \<Rightarrow> (Inl e, w1) | Inr _ \<Rightarrow> (Inr resp, w1)))"

section \<open>\<open>take_snapshot\<close>\<close>

datatype retval = RetNone | RetFalse

text \<open>
  The body of the \<open>while\<close> loop of \<open>take_snapshot\<close>: re-authentication, one status
  poll, the progress line and the pause. It returns the new values of the local variables
  \<open>status\<close> and \<open>workspace_id\<close>.
\<close>

definition poll_body :: "LeanIX \<Rightarrow> world \<Rightarrow> string \<Rightarrow>
    (py_error + json \<times> json) \<times> LeanIX \<times> world" where
  "poll_body self w status_check_url =
     (case connect self w of
        (Inl e, self1, w1) \<Rightarrow> (Inl e, self1, w1)
      | (Inr _, self1, w1) \<Rightarrow>
          (case access_leanix_api self1 w1 status_check_url ''GET'' None None False of
             (Inl e, w2) \<Rightarrow> (Inl e, self1, w2)
           | (Inr job_status_response, w2) \<Rightarrow>
               (case json_path job_status_response [K ''data'', K ''status''] of
                  Inl e \<Rightarrow> (Inl e, self1, w2)
                | Inr status \<Rightarrow>
               (case json_path job_status_response [K ''data'', K ''workspaceId''] of
                  Inl e \<Rightarrow> (Inl e, self1, w2)
                | Inr workspace_id \<Rightarrow>
               (case json_path job_status_response [K ''data'', K ''processed''] of
                  Inl e \<Rightarrow> (Inl e, self1, w2)
                | Inr processed \<Rightarrow>
               (case json_path job_status_response [K ''data'', K ''total''] of
                  Inl e \<Rightarrow> (Inl e, self1, w2)
                | Inr total' \<Rightarrow>
                    (Inr (status, workspace_id), self1,
                     sleep 5
                       (print [S ''Status: '', J status, S ''Progress:'', J processed,
                               S ''/'', J total'] w2))))))))"

text \<open>
  The \<open>while\<close> loop itself. Its local variables \<open>status\<close>, \<open>waiting_since\<close> and
  \<open>workspace_id\<close> are arguments and results; the counter advances by 5 per round.
\<close>

function poll_loop :: "LeanIX \<Rightarrow> world \<Rightarrow> string \<Rightarrow> json \<Rightarrow> int \<Rightarrow> json \<Rightarrow>
    (py_error + json \<times> int \<times> json) \<times> LeanIX \<times> world" where
  "poll_loop self w status_check_url status waiting_since workspace_id =
     (if status \<noteq> JStr ''DONE'' \<and> waiting_since < timeout self then
        (case poll_body self w status_check_url of
           (Inl e, self1, w1) \<Rightarrow> (Inl e, self1, w1)
         | (Inr (status', workspace_id'), self1, w1) \<Rightarrow>
             poll_loop self1 w1 status_check_url status' (waiting_since + 5) workspace_id')
      else (Inr (status, waiting_since, workspace_id), self, w))"
  by pat_completeness auto
termination
  apply (relation "measure (\<lambda>(self, w, u, st, ws, wid). nat (timeout self - ws))")
   apply simp
  apply (auto simp: poll_body_def connect_def Let_def exchange_def
      split: prod.splits reply.splits sum.splits)
  done

declare poll_loop.simps [simp del]

text \<open>The body of the \<open>try\<close> statement of \<open>take_snapshot\<close>.\<close>

definition take_snapshot_download :: "LeanIX \<Rightarrow> world \<Rightarrow> string \<Rightarrow> json \<Rightarrow>
    (py_error + unit) \<times> world" where
  "take_snapshot_download self w download_url download_key =
     (case access_leanix_api self w download_url ''GET'' None (Some [(''key'', download_key)]) True of
        (Inl e, w1) \<Rightarrow> (Inl e, w1)
      | (Inr binary, w1) \<Rightarrow>
          (case config_get (config self) ''OPTIONAL'' ''EXPORT_FILENAME'' of
             Inl e \<Rightarrow> (Inl e, w1)
           | Inr template \<Rightarrow>
               (let filename = str_replace template ''{cdate}'' (get_today_date w1);
                    w2 = print [S ''Writing snapshot to '', S filename] w1;
                    w3 = (if status_code binary = 200
                          then write_file filename (iter_content 1024 (content binary)) w2
                          else w2)
                in (Inr (), print [S ''Saved to file '', S filename] w3))))"

text \<open>\<open>del d[k]\<close> on a dictionary.\<close>

definition py_del :: "string \<Rightarrow> dict \<Rightarrow> py_error + dict" where
  "py_del k d = (if k \<in> fst ` set d then Inr (AList.delete k d) else Inl KeyError)"

text \<open>
  \<open>take_snapshot\<close> from the comment \<open># request download key\<close> to its end: the metadata
  lookup, the download and the removal of the \<open>Accept\<close> entry.
\<close>

definition take_snapshot_export :: "LeanIX \<Rightarrow> world \<Rightarrow> json \<Rightarrow>
    (py_error + retval) \<times> LeanIX \<times> world" where
  "take_snapshot_export self w workspace_id =
     (let request_key_url = instance' self @ base_path self @ ''/exports'';
          key_params = [(''exportType'', JStr ''SNAPSHOT''), (''pageSize'', JNum 1),
                        (''sorting'', JStr ''createdAt''), (''sortDirection'', JStr ''DESC'')]
      in case access_leanix_api self w request_key_url ''GET''
                (Some (JObj [(''exportType'', JStr ''SNAPSHOT'')])) (Some key_params) False of
           (Inl e, w1) \<Rightarrow> (Inl e, self, w1)
         | (Inr data, w1) \<Rightarrow>
             (case json_path data [K ''data'', I 0, K ''status''] of
                Inl e \<Rightarrow> (Inl e, self, w1)
              | Inr status \<Rightarrow>
             (case json_path data [K ''data'', I 0, K ''downloadKey''] of
                Inl e \<Rightarrow> (Inl e, self, w1)
              | Inr download_key \<Rightarrow>
                  if status \<noteq> JStr ''COMPLETED'' then
                    (Inr RetFalse, self, print [S ''Snapshot not completed. Status: '', J status] w1)
                  else
                    (let w2 = print [S ''Snapshot completed. Downloading...''] w1
                     in case as_str workspace_id of
                          Inl e \<Rightarrow> (Inl e, self, w2)
                        | Inr wid \<Rightarrow>
                            (case header self of
                               None \<Rightarrow> (Inl TypeError, self, w2)
                             | Some h \<Rightarrow>
                                 (let self1 = self\<lparr>header :=
                                        Some (AList.update ''Accept'' ''application/octet-stream'' h)\<rparr>
                                  in case take_snapshot_download self1 w2
                                            (instance' self @ base_path self @
                                             ''/exports/downloads/'' @ wid)
                                            download_key of
                                       (Inl e, w3) \<Rightarrow>
                                         if is_HTTPError e then
                                           (Inr RetNone, self1,
                                            print [S ''Error while downloading snapshot: '', E e] w3)
                                         else (Inl e, self1, w3)
                                     | (Inr _, w3) \<Rightarrow>
                                         (case py_del ''Accept'' (the (header self1)) of
                                            Inl e \<Rightarrow> (Inl e, self1, w3)
                                          | Inr h' \<Rightarrow>
                                              (Inr RetNone, self1\<lparr>header := Some h'\<rparr>, w3))))))))"

definition take_snapshot :: "LeanIX \<Rightarrow> world \<Rightarrow> (py_error + retval) \<times> LeanIX \<times> world" where
  "take_snapshot self w =
     (let w1 = print [S ''Creating snapshot...''] w;
          trigger_export_url = instance' self @ base_path self @ ''/exports/fullExport''
      in case access_leanix_api self w1 trigger_export_url ''POST'' None
                (Some [(''exportType'', JStr ''SNAPSHOT'')]) False of
           (Inl e, w2) \<Rightarrow> (Inl e, self, w2)
         | (Inr trigger_export_response, w2) \<Rightarrow>
             (case json_path trigger_export_response [K ''data'', K ''jobId''] of
                Inl e \<Rightarrow> (Inl e, self, w2)
              | Inr job_id \<Rightarrow>
                  (let w3 = print [S ''Job ID: '', J job_id] w2;
                       w4 = print [S ''Waiting for snapshot to complete, this may take some time...''] w3
                   in case as_str job_id of
                        Inl e \<Rightarrow> (Inl e, self, w4)
                      | Inr jid \<Rightarrow>
                          (case poll_loop self w4
                                  (instance' self @ base_path self @ ''/jobs/'' @ jid @ ''/status'')
                                  JNull 0 JNull of
                             (Inl e, self5, w5) \<Rightarrow> (Inl e, self5, w5)
                           | (Inr (status, waiting_since, workspace_id), self5, w5) \<Rightarrow>
                               if waiting_since \<ge> timeout self5 then
                                 (Inr RetFalse, self5,
                                  print [S ''Timeout exceeded. Snapshot not completed.''] w5)
                               else take_snapshot_export self5 w5 workspace_id))))"

section \<open>\<open>download_surveys\<close>\<close>

text \<open>The inner \<open>for\<close> loop, over the run ids of one survey.\<close>

fun runs_loop :: "LeanIX \<Rightarrow> world \<Rightarrow> (string \<times> json) list \<Rightarrow> string \<Rightarrow> json list \<Rightarrow>
    (py_error + unit) \<times> world" where
  "runs_loop self w params survey [] = (Inr (), w)"
| "runs_loop self w params survey (run # runs) =
     (case as_str run of
        Inl e \<Rightarrow> (Inl e, w)
      | Inr r \<Rightarrow>
          (let w1 = print [S (''Survey '' @ survey @ '' - Run '' @ r)] w;
               result_url = instance' self @ poll_url self @ ''/pollRuns/'' @ r @ ''/poll_results.xlsx''
           in case access_leanix_api self w1 result_url ''GET'' None (Some params) False of
                (Inl e, w2) \<Rightarrow> (Inl e, w2)
              | (Inr file, w2) \<Rightarrow>
                  (case config_get (config self) ''OPTIONAL'' ''SURVEY_FILENAME'' of
                     Inl e \<Rightarrow> (Inl e, w2)
                   | Inr template \<Rightarrow>
                       (let filename =
                              str_replace
                                (str_replace (str_replace template ''{cdate}'' (get_today_date w2))
                                   ''{id}'' survey)
                                ''{run}'' r
                        in runs_loop self (write_file filename [content file] w2) params survey runs))))"

text \<open>The outer \<open>for\<close> loop, over the survey ids.\<close>

fun surveys_loop :: "LeanIX \<Rightarrow> world \<Rightarrow> (string \<times> json) list \<Rightarrow> json list \<Rightarrow>
    (py_error + unit) \<times> world" where
  "surveys_loop self w params [] = (Inr (), w)"
| "surveys_loop self w params (survey # surveys) =
     (case as_str survey of
        Inl e \<Rightarrow> (Inl e, w)
      | Inr sid \<Rightarrow>
          (let run_url = instance' self @ poll_url self @ ''/polls/'' @ sid @ ''/pollRuns''
           in case access_leanix_api self w run_url ''GET'' None (Some params) False of
                (Inl e, w1) \<Rightarrow> (Inl e, w1)
              | (Inr resp, w1) \<Rightarrow>
                  (case json_path resp [K ''data''] of
                     Inl e \<Rightarrow> (Inl e, w1)
                   | Inr runs \<Rightarrow>
                       (case py_iter runs of
                          Inl e \<Rightarrow> (Inl e, w1)
                        | Inr ys \<Rightarrow>
                            (case ids_of ys of
                               Inl e \<Rightarrow> (Inl e, w1)
                             | Inr run_ids \<Rightarrow>
                                 (case runs_loop self w1 params sid run_ids of
                                    (Inl e, w2) \<Rightarrow> (Inl e, w2)
                                  | (Inr _, w2) \<Rightarrow> surveys_loop self w2 params surveys))))))"

text \<open>The body of the \<open>try\<close> statement of \<open>download_surveys\<close>.\<close>

definition download_surveys_try :: "LeanIX \<Rightarrow> world \<Rightarrow> (string \<times> json) list \<Rightarrow>
    (py_error + unit) \<times> world" where
  "download_surveys_try self w params =
     (case access_leanix_api self w (instance' self @ poll_url self @ ''/polls'') ''GET'' None
             (Some params) False of
        (Inl e, w1) \<Rightarrow> (Inl e, w1)
      | (Inr resp, w1) \<Rightarrow>
          (case json_path resp [K ''data''] of
             Inl e \<Rightarrow> (Inl e, w1)
           | Inr survey_ids \<Rightarrow>
               (case py_iter survey_ids of
                  Inl e \<Rightarrow> (Inl e, w1)
                | Inr xs \<Rightarrow>
                    (case ids_of xs of
                       Inl e \<Rightarrow> (Inl e, w1)
                     | Inr ids \<Rightarrow> surveys_loop self w1 params ids))))"

definition download_surveys :: "LeanIX \<Rightarrow> world \<Rightarrow> (py_error + retval) \<times> world" where
  "download_surveys self w =
     (let w0 = print [S ''Downloading surveys...''] w
      in case config_get (config self) ''MANDATORY'' ''WORKSPACEID'' of
           Inl e \<Rightarrow> (Inl e, w0)
         | Inr workspace \<Rightarrow>
             (case download_surveys_try self w0 [(''workspaceId'', JStr workspace)] of
                (Inl e, w1) \<Rightarrow>
                  if is_HTTPError e then
                    (Inr RetNone, print [S ''Error while downloading surveys: '', E e] w1)
                  else (Inl e, w1)
              | (Inr _, w1) \<Rightarrow> (Inr RetNone, w1)))"

section \<open>Concrete inputs\<close>

text \<open>
  A configuration with every option, the client \<open>__init__\<close> makes of it, replies of the
  documented shapes and a service that answers from a finite script.
\<close>

definition example_config :: config where
  "example_config =
     [(''MANDATORY'',
         [(''HOSTNAME'', ''https://h''), (''APITOKEN'', ''t''),
          (''HTTP_PROXY'', ''http://p:8080''), (''HTTPS_PROXY'', ''http://p:8080''),
          (''PROXY_REQUIRED'', ''True''), (''WORKSPACEID'', ''ws'')]),
      (''OPTIONAL'',
         [(''EXPORT_FILENAME'', ''export_{cdate}.xlsx''),
          (''SURVEY_FILENAME'', ''survey_{id}_{run}_{cdate}.xlsx'')])]"

definition example_self :: LeanIX where
  "example_self =
     \<lparr>config = example_config, instance' = ''https://h'',
      base_path = ''/services/pathfinder/v1'', poll_url = ''/services/poll/v2'',
      apitoken = ''t'', header = None, timeout = 7200, proxies = None\<rparr>"

definition ok_json :: "json \<Rightarrow> reply" where
  "ok_json j = Reply (Response 200 (Some j) [])"

definition trigger_reply :: reply where
  "trigger_reply = ok_json (JObj [(''data'', JObj [(''jobId'', JStr ''j1'')])])"

definition token_reply :: reply where
  "token_reply = ok_json (JObj [(''access_token'', JStr ''tok'')])"

definition status_reply :: "string \<Rightarrow> reply" where
  "status_reply st =
     ok_json (JObj [(''data'', JObj [(''status'', JStr st), (''workspaceId'', JStr ''w1''),
                                    (''processed'', JNum 1), (''total'', JNum 2)])])"

definition export_reply :: "string \<Rightarrow> reply" where
  "export_reply st =
     ok_json (JObj [(''data'', JArr [JObj [(''status'', JStr st), (''downloadKey'', JStr ''k'')]])])"

text \<open>An export record that reports its status and carries no download key.\<close>

definition export_reply_no_key :: "string \<Rightarrow> reply" where
  "export_reply_no_key st =
     ok_json (JObj [(''data'', JArr [JObj [(''status'', JStr st)]])])"

definition script :: "reply list \<Rightarrow> nat \<Rightarrow> reply" where
  "script rs n = (if n < length rs then rs ! n else NoReply)"

definition start :: "(nat \<Rightarrow> reply) \<Rightarrow> world" where
  "start srv = \<lparr>server = srv, nreq = 0, trace = [], files = Map.empty, today = (2024, 3, 5)\<rparr>"

section \<open>Reading a trace\<close>

text \<open>The events a call appended to the trace, given the worlds before and after it.\<close>

definition events_since :: "world \<Rightarrow> world \<Rightarrow> event list" where
  "events_since w w' = drop (length (trace w)) (trace w')"

text \<open>
  The status code of an exchange that \<open>raise_for_status\<close> turns into an \<open>HTTPError\<close>;
  \<open>None\<close> for every other event.
\<close>

fun reply_failure :: "reply \<Rightarrow> nat option" where
  "reply_failure (Reply r) = (if http_error r then Some (status_code r) else None)"
| "reply_failure NoReply = None"

fun failure :: "event \<Rightarrow> nat option" where
  "failure (Api m u h p ps d st rp) = reply_failure rp"
| "failure (Auth u t p rp) = reply_failure rp"
| "failure (Print x) = None"
| "failure (Sleep n) = None"
| "failure (FileWrite f c) = None"

text \<open>
  The four gateway calls of \<open>take_snapshot\<close>, told apart by their URLs: the export trigger,
  a status poll, the export-metadata lookup and the binary download.
\<close>

datatype step = Trigger | Poll | Metadata | Download

fun step_of :: "LeanIX \<Rightarrow> event \<Rightarrow> step option" where
  "step_of self (Api m u h p ps d st rp) =
     (if u = instance' self @ base_path self @ ''/exports/fullExport'' then Some Trigger
      else if u = instance' self @ base_path self @ ''/exports'' then Some Metadata
      else if prefix (instance' self @ base_path self @ ''/exports/downloads/'') u then Some Download
      else if prefix (instance' self @ base_path self @ ''/jobs/'') u then Some Poll
      else None)"
| "step_of self (Auth u t p rp) = None"
| "step_of self (Print x) = None"
| "step_of self (Sleep n) = None"
| "step_of self (FileWrite f c) = None"

fun is_auth :: "event \<Rightarrow> bool" where
  "is_auth (Auth u t p rp) = True"
| "is_auth (Api m u h p ps d st rp) = False"
| "is_auth (Print x) = False"
| "is_auth (Sleep n) = False"
| "is_auth (FileWrite f c) = False"

fun is_api :: "event \<Rightarrow> bool" where
  "is_api (Api m u h p ps d st rp) = True"
| "is_api (Auth u t p rp) = False"
| "is_api (Print x) = False"
| "is_api (Sleep n) = False"
| "is_api (FileWrite f c) = False"

fun is_write :: "event \<Rightarrow> bool" where
  "is_write (FileWrite f c) = True"
| "is_write (Auth u t p rp) = False"
| "is_write (Api m u h p ps d st rp) = False"
| "is_write (Print x) = False"
| "is_write (Sleep n) = False"

text \<open>The fields of the client that no method assigns after \<open>__init__\<close>.\<close>

definition static :: "LeanIX \<Rightarrow> LeanIX" where
  "static self = self\<lparr>header := None\<rparr>"

text \<open>The reply the service gives to the next request, and the world after an exchange.\<close>

definition next_reply :: "world \<Rightarrow> reply" where
  "next_reply w = server w (nreq w)"

definition sent :: "event \<Rightarrow> world \<Rightarrow> world" where
  "sent e w = w\<lparr>nreq := Suc (nreq w), trace := trace w @ [e]\<rparr>"

section \<open>The shape of the poll loop's trace\<close>

text \<open>
  A completed round of the poll loop leaves four events: the token exchange, the status
  poll sent with the token that exchange returned, the progress line and the pause. A
  round that raises leaves the token exchange alone, or the token exchange and the poll.
\<close>

definition full_round :: "LeanIX \<Rightarrow> string \<Rightarrow> event list \<Rightarrow> bool" where
  "full_round self u evs \<longleftrightarrow>
     (\<exists>rp tok b x.
        evs = [Auth (instance' self @ ''/services/mtm/v1/oauth2/token'') (apitoken self)
                 (proxies self) (Reply rp),
               Api ''GET'' u (Some [(''Authorization'', ''Bearer '' @ tok)]) (proxies self)
                 None None False (Reply b),
               Print x, Sleep 5] \<and>
        \<not> http_error rp \<and> \<not> http_error b \<and>
        json_path rp [K ''access_token''] = Inr (JStr tok))"

definition cut_round :: "LeanIX \<Rightarrow> string \<Rightarrow> py_error \<Rightarrow> event list \<Rightarrow> bool" where
  "cut_round self u e evs \<longleftrightarrow>
     (\<exists>rp. evs = [Auth (instance' self @ ''/services/mtm/v1/oauth2/token'') (apitoken self)
                    (proxies self) rp] \<and>
           (\<forall>c. reply_failure rp = Some c \<longrightarrow> e = HTTPError c)) \<or>
     (\<exists>rp tok b.
        evs = [Auth (instance' self @ ''/services/mtm/v1/oauth2/token'') (apitoken self)
                 (proxies self) (Reply rp),
               Api ''GET'' u (Some [(''Authorization'', ''Bearer '' @ tok)]) (proxies self)
                 None None False b] \<and>
        \<not> http_error rp \<and>
        json_path rp [K ''access_token''] = Inr (JStr tok) \<and>
        (\<forall>c. reply_failure b = Some c \<longrightarrow> e = HTTPError c))"

text \<open>The exception a result carries, if any.\<close>

fun err_of :: "py_error + 'a \<Rightarrow> py_error option" where
  "err_of (Inl e) = Some e"
| "err_of (Inr v) = None"

text \<open>
  The events of a whole run of the loop: completed rounds, then nothing more if the loop
  ended normally, or the round that raised \<open>e\<close>.
\<close>

definition loop_trace :: "LeanIX \<Rightarrow> string \<Rightarrow> py_error option \<Rightarrow> event list \<Rightarrow> bool" where
  "loop_trace self u eo evs \<longleftrightarrow>
     (\<exists>rs tl. evs = concat rs @ tl \<and> (\<forall>x\<in>set rs. full_round self u x) \<and>
        (case eo of None \<Rightarrow> tl = [] | Some e \<Rightarrow> cut_round self u e tl))"

text \<open>
  The events of \<open>take_snapshot\<close> up to the end of its poll loop: the announcement, the
  export trigger, then (if the trigger gave a job id) two more lines and the trace of
  the loop. The option is the exception raised in this phase, if any.
\<close>

definition poll_phase :: "LeanIX \<Rightarrow> py_error option \<Rightarrow> event list \<Rightarrow> bool" where
  "poll_phase self eo pre \<longleftrightarrow>
     (\<exists>rp0 mid evs.
        pre = Print [S ''Creating snapshot...''] #
              Api ''POST'' (instance' self @ base_path self @ ''/exports/fullExport'')
                (header self) (proxies self) (Some [(''exportType'', JStr ''SNAPSHOT'')]) None
                False rp0 # mid @ evs \<and>
        (\<forall>e\<in>set mid. \<exists>x. e = Print x) \<and>
        ((evs = [] \<and> (\<exists>e. eo = Some e \<and> (\<forall>c. reply_failure rp0 = Some c \<longrightarrow> e = HTTPError c))) \<or>
         (reply_failure rp0 = None \<and>
          (\<exists>x. loop_trace self (instance' self @ base_path self @ ''/jobs/'' @ x) eo evs))))"

text \<open>The two gateway requests after the poll loop, as they appear in the trace.\<close>

definition metadata_event :: "LeanIX \<Rightarrow> reply \<Rightarrow> event" where
  "metadata_event self rp =
     Api ''GET'' (instance' self @ base_path self @ ''/exports'') (header self) (proxies self)
       (Some [(''exportType'', JStr ''SNAPSHOT''), (''pageSize'', JNum 1),
              (''sorting'', JStr ''createdAt''), (''sortDirection'', JStr ''DESC'')])
       (Some (JObj [(''exportType'', JStr ''SNAPSHOT'')])) False rp"

definition download_event :: "LeanIX \<Rightarrow> dict \<Rightarrow> string \<Rightarrow> json \<Rightarrow> reply \<Rightarrow> event" where
  "download_event self h wid k rp =
     Api ''GET'' (instance' self @ base_path self @ ''/exports/downloads/'' @ wid)
       (Some (AList.update ''Accept'' ''application/octet-stream'' h)) (proxies self)
       (Some [(''key'', k)]) None True rp"

text \<open>
  Replies of the documented shapes, as predicates on what the service sends: a trigger reply
  that carries a job id, a token reply that carries an access token, and the status that
  a well-formed reply to a status poll reports.
\<close>

definition trigger_ok :: "reply \<Rightarrow> bool" where
  "trigger_ok rp =
     (case rp of
        NoReply \<Rightarrow> False
      | Reply a \<Rightarrow>
          \<not> http_error a \<and>
          (case json_path a [K ''data'', K ''jobId''] of Inr (JStr t) \<Rightarrow> True | _ \<Rightarrow> False))"

definition token_ok :: "reply \<Rightarrow> bool" where
  "token_ok rp =
     (case rp of
        NoReply \<Rightarrow> False
      | Reply a \<Rightarrow>
          \<not> http_error a \<and>
          (case json_path a [K ''access_token''] of Inr (JStr t) \<Rightarrow> True | _ \<Rightarrow> False))"

definition poll_status :: "reply \<Rightarrow> json option" where
  "poll_status rp =
     (case rp of
        NoReply \<Rightarrow> None
      | Reply b \<Rightarrow>
          if http_error b then None
          else (case json_path b [K ''data'', K ''status''] of
                  Inl e \<Rightarrow> None
                | Inr s \<Rightarrow>
                    (case json_path b [K ''data'', K ''workspaceId''] of
                       Inl e \<Rightarrow> None
                     | Inr wid \<Rightarrow>
                         (case json_path b [K ''data'', K ''processed''] of
                            Inl e \<Rightarrow> None
                          | Inr pr \<Rightarrow>
                              (case json_path b [K ''data'', K ''total''] of
                                 Inl e \<Rightarrow> None
                               | Inr tt \<Rightarrow> Some s)))))"

text \<open>
  A service on which the job is still running at the first 1439 status polls and done at
  the 1440th, the last one the timeout allows.
\<close>

definition late_done :: "nat \<Rightarrow> reply" where
  "late_done n =
     (if n = 0 then trigger_reply
      else if odd n then token_reply
      else if n = 2880 then status_reply ''DONE''
      else status_reply ''RUNNING'')"

text \<open>A service on which the job never leaves the running state.\<close>

definition never_done :: "nat \<Rightarrow> reply" where
  "never_done n =
     (if n = 0 then trigger_reply
      else if odd n then token_reply
      else status_reply ''RUNNING'')"

text \<open>
  What is claimed of a status poll \<open>ev\<close> and the events \<open>xs\<close> before it: the last of them
  is a successful token exchange, \<open>ev\<close> carries the bearer token that exchange returned, and
  there are as many token exchanges before \<open>ev\<close> as status polls up to and including it.
\<close>

definition reauthenticated :: "LeanIX \<Rightarrow> event list \<Rightarrow> event \<Rightarrow> bool" where
  "reauthenticated self xs ev \<longleftrightarrow>
     (\<exists>xs' a tok m u p ps d st rp.
        xs = xs' @ [Auth (instance' self @ ''/services/mtm/v1/oauth2/token'') (apitoken self)
                      (proxies self) (Reply a)] \<and>
        \<not> http_error a \<and> json_path a [K ''access_token''] = Inr (JStr tok) \<and>
        ev = Api m u (Some [(''Authorization'', ''Bearer '' @ tok)]) p ps d st rp \<and>
        length (filter is_auth xs) =
          Suc (length (filter (\<lambda>e. step_of self e = Some Poll) xs)))"

text \<open>The file system after the file writes of a trace, in order.\<close>

fun replay :: "event list \<Rightarrow> (string \<rightharpoonup> string) \<Rightarrow> (string \<rightharpoonup> string)" where
  "replay [] fs = fs"
| "replay (FileWrite f c # es) fs = replay es (fs(f \<mapsto> c))"
| "replay (Auth u t p rp # es) fs = replay es fs"
| "replay (Api m u h p ps d st rp # es) fs = replay es fs"
| "replay (Print x # es) fs = replay es fs"
| "replay (Sleep n # es) fs = replay es fs"

text \<open>
  A trace in which an exchange answered with an HTTP error code can only be the last
  event, and then the result is that \<open>HTTPError\<close>.
\<close>

definition clean :: "py_error option \<Rightarrow> event list \<Rightarrow> bool" where
  "clean r evs \<longleftrightarrow>
     (\<forall>xs ev ys c. evs = xs @ ev # ys \<and> failure ev = Some c \<longrightarrow> ys = [] \<and> r = Some (HTTPError c))"

text \<open>What a call leaves behind: the events it appended and the files they wrote.\<close>

definition effect :: "world \<Rightarrow> py_error option \<Rightarrow> world \<Rightarrow> bool" where
  "effect w r w' \<longleftrightarrow>
     (\<exists>evs. trace w' = trace w @ evs \<and> clean r evs \<and> files w' = replay evs (files w))"

text \<open>
  A service with two surveys: the run of the first is downloaded, the run listing of the
  second is answered with status 500.
\<close>

definition surveys_script :: "nat \<Rightarrow> reply" where
  "surveys_script =
     script [ok_json (JObj [(''data'', JArr [JObj [(''id'', JStr ''S1'')],
                                             JObj [(''id'', JStr ''S2'')]])]),
             ok_json (JObj [(''data'', JArr [JObj [(''id'', JStr ''R1'')]])]),
             Reply (Response 200 None ''xlsx''),
             Reply (Response 500 None [])]"

section \<open>The gateway\<close>

lemma access_leanix_api_valid:
  assumes "method = ''GET'' \<or> method = ''POST'' \<or> method = ''PUT''"
  shows "access_leanix_api self w url method data params stream =
     (let w1 = w\<lparr>nreq := Suc (nreq w),
                  trace := trace w @ [Api method url (header self) (proxies self) params data stream
                                        (server w (nreq w))]\<rparr>
      in case server w (nreq w) of
           NoReply \<Rightarrow> (Inl ConnectionError, w1)
         | Reply resp \<Rightarrow>
             (if http_error resp
              then (Inl (HTTPError (status_code resp)), w1) else (Inr resp, w1)))"
  using assms
  by (auto simp: access_leanix_api_def requests_def exchange_def raise_for_status_def Let_def
      split: reply.splits)

lemmas access_GET = access_leanix_api_valid [of "''GET''", simplified]
lemmas access_POST = access_leanix_api_valid [of "''POST''", simplified]

text \<open>
  Claim C10. The gateway fails with the non-HTTP \<open>AttributeError\<close> of the unassigned
  response, sending nothing, exactly when its method is none of \<open>GET\<close>, \<open>POST\<close>, \<open>PUT\<close>;
  for these three it sends exactly one request.
\<close>

theorem access_leanix_api_method_precondition:
  "(method \<notin> {''GET'', ''POST'', ''PUT''} \<longrightarrow>
      access_leanix_api self w url method data params stream = (Inl AttributeError, w)) \<and>
   (method \<in> {''GET'', ''POST'', ''PUT''} \<longrightarrow>
      fst (access_leanix_api self w url method data params stream) \<noteq> Inl AttributeError \<and>
      trace (snd (access_leanix_api self w url method data params stream)) =
        trace w @ [Api method url (header self) (proxies self) params data stream
                     (server w (nreq w))])"
proof (intro conjI impI)
  assume "method \<notin> {''GET'', ''POST'', ''PUT''}"
  then show "access_leanix_api self w url method data params stream = (Inl AttributeError, w)"
    by (simp add: access_leanix_api_def)
next
  assume m: "method \<in> {''GET'', ''POST'', ''PUT''}"
  then have v: "method = ''GET'' \<or> method = ''POST'' \<or> method = ''PUT''" by simp
  show "fst (access_leanix_api self w url method data params stream) \<noteq> Inl AttributeError"
    by (simp add: access_leanix_api_valid [OF v] Let_def split: reply.splits)
  show "trace (snd (access_leanix_api self w url method data params stream)) =
        trace w @ [Api method url (header self) (proxies self) params data stream
                     (server w (nreq w))]"
    by (simp add: access_leanix_api_valid [OF v] Let_def split: reply.splits)
qed

theorem access_leanix_api_method_precondition_witness:
  "access_leanix_api example_self (start (script [token_reply])) ''https://h/x'' ''DELETE''
      None None False = (Inl AttributeError, start (script [token_reply])) \<and>
   fst (access_leanix_api example_self (start (script [token_reply])) ''https://h/x'' ''PUT''
      None None False) \<noteq> Inl AttributeError \<and>
   trace (snd (access_leanix_api example_self (start (script [token_reply])) ''https://h/x''
      ''PUT'' None None False)) =
     [Api ''PUT'' ''https://h/x'' None None None None False token_reply]"
  using access_leanix_api_method_precondition
      [of "''DELETE''" example_self "start (script [token_reply])" "''https://h/x''" None None False]
    access_leanix_api_method_precondition
      [of "''PUT''" example_self "start (script [token_reply])" "''https://h/x''" None None False]
  by (simp add: example_self_def start_def script_def)

section \<open>Proxy settings\<close>

lemma init_proxies: "init cfg = Inr self \<Longrightarrow> proxies self = None"
  by (auto simp: init_def is_True_def split: sum.splits)

lemma init_example: "init example_config = Inr example_self"
  by (simp add: init_def example_config_def example_self_def config_get_def is_True_def)

text \<open>
  Claim C1. The claim fails on the code. \<open>configparser\<close> hands \<open>PROXY_REQUIRED\<close> over as
  a string, and \<open>proxy_required is True\<close> is false of every string: with the flag set to
  \<open>True\<close> in the configuration, \<open>__init__\<close> still leaves \<open>proxies\<close> at \<open>None\<close>, and a
  gateway request carries no proxy settings (it does carry the header of the client,
  whatever that is).
\<close>

theorem proxy_required_flag_has_no_effect:
  "config_get example_config ''MANDATORY'' ''PROXY_REQUIRED'' = Inr ''True'' \<and>
   init example_config = Inr example_self \<and>
   proxies example_self = None \<and>
   trace (snd (access_leanix_api (example_self\<lparr>header := hdr\<rparr>) (start srv) url ''GET''
      None None False)) =
     [Api ''GET'' url hdr None None None False (srv 0)]"
  by (simp add: init_example access_GET Let_def start_def split: reply.splits)
    (simp add: example_config_def example_self_def config_get_def)

section \<open>Effects of the primitive operations\<close>

lemma static_fields:
  assumes "static a = static b"
  shows "instance' a = instance' b" "base_path a = base_path b" "poll_url a = poll_url b"
    "apitoken a = apitoken b" "timeout a = timeout b" "proxies a = proxies b"
    "config a = config b"
  using arg_cong [OF assms, of instance'] arg_cong [OF assms, of base_path]
    arg_cong [OF assms, of poll_url] arg_cong [OF assms, of apitoken]
    arg_cong [OF assms, of timeout] arg_cong [OF assms, of proxies]
    arg_cong [OF assms, of config]
  unfolding static_def by simp_all

lemma static_header [simp]: "static (self\<lparr>header := h\<rparr>) = static self"
  by (simp add: static_def)

lemma step_of_static: "static a = static b \<Longrightarrow> step_of a e = step_of b e"
  using static_fields(1,2) [of a b] by (cases e) simp_all

lemma as_str_Inr [simp]: "as_str j = Inr t \<longleftrightarrow> j = JStr t"
  by (cases j) simp_all

lemma events_since_append: "trace w' = trace w @ evs \<Longrightarrow> events_since w w' = evs"
  by (simp add: events_since_def)

lemma print_fields [simp]:
  "files (print x w) = files w" "server (print x w) = server w"
  "nreq (print x w) = nreq w" "today (print x w) = today w"
  "trace (print x w) = trace w @ [Print x]"
  by (simp_all add: print_def)

lemma sleep_fields [simp]:
  "files (sleep n w) = files w" "server (sleep n w) = server w"
  "nreq (sleep n w) = nreq w" "today (sleep n w) = today w"
  "trace (sleep n w) = trace w @ [Sleep n]"
  by (simp_all add: sleep_def)

lemma sent_fields [simp]:
  "files (sent e w) = files w" "server (sent e w) = server w"
  "nreq (sent e w) = Suc (nreq w)" "today (sent e w) = today w"
  "trace (sent e w) = trace w @ [e]"
  by (simp_all add: sent_def)

lemma access_GET_sent:
  "access_leanix_api self w url ''GET'' data params stream =
     (case next_reply w of
        NoReply \<Rightarrow> Inl ConnectionError
      | Reply resp \<Rightarrow>
          (if http_error resp then Inl (HTTPError (status_code resp)) else Inr resp),
      sent (Api ''GET'' url (header self) (proxies self) params data stream (next_reply w)) w)"
  by (simp add: access_GET Let_def sent_def next_reply_def split: reply.splits)

lemma access_POST_sent:
  "access_leanix_api self w url ''POST'' data params stream =
     (case next_reply w of
        NoReply \<Rightarrow> Inl ConnectionError
      | Reply resp \<Rightarrow>
          (if http_error resp then Inl (HTTPError (status_code resp)) else Inr resp),
      sent (Api ''POST'' url (header self) (proxies self) params data stream (next_reply w)) w)"
  by (simp add: access_POST Let_def sent_def next_reply_def split: reply.splits)

lemma connect_sent:
  "connect self w =
     (let w1 = sent (Auth (instance' self @ ''/services/mtm/v1/oauth2/token'') (apitoken self)
                       (proxies self) (next_reply w)) w
      in case next_reply w of
           NoReply \<Rightarrow> (Inl ConnectionError, self, w1)
         | Reply resp \<Rightarrow>
             if http_error resp
             then (Inl (HTTPError (status_code resp)), self, w1)
             else (case json_path resp [K ''access_token''] of
                     Inl e \<Rightarrow> (Inl e, self, w1)
                   | Inr tok \<Rightarrow>
                       (case as_str tok of
                          Inl e \<Rightarrow> (Inl e, self, w1)
                        | Inr t \<Rightarrow>
                            (Inr (), self\<lparr>header := Some [(''Authorization'', ''Bearer '' @ t)]\<rparr>,
                             w1))))"
proof (cases "next_reply w")
  case NoReply
  then show ?thesis
    by (simp add: connect_def exchange_def sent_def next_reply_def Let_def)
next
  case (Reply resp)
  then show ?thesis
    by (cases "http_error resp")
      (simp_all add: connect_def exchange_def raise_for_status_def sent_def next_reply_def Let_def)
qed


section \<open>One round of the poll loop\<close>

lemma next_reply_sent [simp]: "next_reply (sent e w) = server w (Suc (nreq w))"
  by (simp add: next_reply_def)

lemma poll_body_Inr:
  assumes "poll_body self w u = (Inr (st, wid), self1, w1)"
  shows "\<exists>rp tok b pr tt.
      next_reply w = Reply rp \<and> \<not> http_error rp \<and>
      json_path rp [K ''access_token''] = Inr (JStr tok) \<and>
      server w (Suc (nreq w)) = Reply b \<and> \<not> http_error b \<and>
      json_path b [K ''data'', K ''status''] = Inr st \<and>
      json_path b [K ''data'', K ''workspaceId''] = Inr wid \<and>
      json_path b [K ''data'', K ''processed''] = Inr pr \<and>
      json_path b [K ''data'', K ''total''] = Inr tt \<and>
      self1 = self\<lparr>header := Some [(''Authorization'', ''Bearer '' @ tok)]\<rparr> \<and>
      w1 = sleep 5 (print [S ''Status: '', J st, S ''Progress:'', J pr, S ''/'', J tt]
             (sent (Api ''GET'' u (Some [(''Authorization'', ''Bearer '' @ tok)]) (proxies self)
                      None None False (Reply b))
                (sent (Auth (instance' self @ ''/services/mtm/v1/oauth2/token'') (apitoken self)
                         (proxies self) (Reply rp)) w)))"
  using assms
  by (auto simp: poll_body_def connect_sent access_GET_sent Let_def
      split: reply.splits sum.splits if_splits)

lemma poll_body_Inl:
  assumes "poll_body self w u = (Inl e, self1, w1)"
  shows "static self1 = static self \<and> files w1 = files w \<and> server w1 = server w \<and>
         today w1 = today w \<and>
         (\<exists>evs. trace w1 = trace w @ evs \<and> cut_round self u e evs)"
  using assms
  by (auto simp: poll_body_def connect_sent access_GET_sent Let_def cut_round_def
      split: reply.splits sum.splits if_splits)


section \<open>The trace of the poll loop\<close>

lemma full_round_header [simp]: "full_round (self\<lparr>header := h\<rparr>) u evs = full_round self u evs"
  by (simp add: full_round_def)

lemma cut_round_header [simp]: "cut_round (self\<lparr>header := h\<rparr>) u e evs = cut_round self u e evs"
  by (simp add: cut_round_def)

lemma poll_body_round:
  assumes "poll_body self w u = (Inr (st, wid), self1, w1)"
  shows "\<exists>h evs. self1 = self\<lparr>header := h\<rparr> \<and> files w1 = files w \<and> server w1 = server w \<and>
           today w1 = today w \<and> trace w1 = trace w @ evs \<and> full_round self u evs"
proof -
  from poll_body_Inr [OF assms] obtain rp tok b pr tt where
    h: "\<not> http_error rp" "json_path rp [K ''access_token''] = Inr (JStr tok)" "\<not> http_error b"
      "self1 = self\<lparr>header := Some [(''Authorization'', ''Bearer '' @ tok)]\<rparr>"
      "w1 = sleep 5 (print [S ''Status: '', J st, S ''Progress:'', J pr, S ''/'', J tt]
             (sent (Api ''GET'' u (Some [(''Authorization'', ''Bearer '' @ tok)]) (proxies self)
                      None None False (Reply b))
                (sent (Auth (instance' self @ ''/services/mtm/v1/oauth2/token'') (apitoken self)
                         (proxies self) (Reply rp)) w)))"
    by blast
  show ?thesis
    apply (rule exI [of _ "Some [(''Authorization'', ''Bearer '' @ tok)]"])
    apply (rule exI [of _ "[Auth (instance' self @ ''/services/mtm/v1/oauth2/token'') (apitoken self)
                 (proxies self) (Reply rp),
               Api ''GET'' u (Some [(''Authorization'', ''Bearer '' @ tok)]) (proxies self)
                 None None False (Reply b),
               Print [S ''Status: '', J st, S ''Progress:'', J pr, S ''/'', J tt], Sleep 5]"])
    using h by (simp add: full_round_def)
qed

lemma loop_trace_header [simp]:
  "loop_trace (self\<lparr>header := h\<rparr>) u eo evs = loop_trace self u eo evs"
  by (cases eo) (simp_all add: loop_trace_def)

lemma loop_trace_nil: "loop_trace self u None []"
  unfolding loop_trace_def
  by (rule exI [of _ "[]"], rule exI [of _ "[]"]) simp

lemma loop_trace_cut: "cut_round self u e evs \<Longrightarrow> loop_trace self u (Some e) evs"
  unfolding loop_trace_def
  by (rule exI [of _ "[]"], rule exI [of _ evs]) simp

lemma loop_trace_cons:
  assumes "full_round self u evs" and "loop_trace self u eo evs'"
  shows "loop_trace self u eo (evs @ evs')"
proof -
  from assms(2) obtain rs tl where
    h: "evs' = concat rs @ tl" "\<forall>x\<in>set rs. full_round self u x"
      "case eo of None \<Rightarrow> tl = [] | Some e \<Rightarrow> cut_round self u e tl"
    unfolding loop_trace_def by blast
  show ?thesis
    unfolding loop_trace_def
    by (rule exI [of _ "evs # rs"], rule exI [of _ tl]) (use h assms(1) in simp)
qed

lemma poll_loop_trace:
  "poll_loop self w u st ws wid = (r, self', w') \<Longrightarrow>
     static self' = static self \<and> files w' = files w \<and> server w' = server w \<and>
     today w' = today w \<and> (\<exists>evs. trace w' = trace w @ evs \<and> loop_trace self u (err_of r) evs)"
proof (induction "nat (timeout self - ws)" arbitrary: self w st ws wid rule: less_induct)
  case less
  note unfold = poll_loop.simps [of self w u st ws wid]
  show ?case
  proof (cases "st \<noteq> JStr ''DONE'' \<and> ws < timeout self")
    case False
    have "poll_loop self w u st ws wid = (Inr (st, ws, wid), self, w)"
      by (subst unfold, subst if_not_P [OF False]) simp
    with less.prems have eq: "r = Inr (st, ws, wid)" "self' = self" "w' = w"
      by simp_all
    have "trace w' = trace w @ [] \<and> loop_trace self u (err_of r) []"
      using eq loop_trace_nil by simp
    then have "\<exists>evs. trace w' = trace w @ evs \<and> loop_trace self u (err_of r) evs" ..
    with eq show ?thesis
      by simp
  next
    case True
    obtain rb self1 w1 where b: "poll_body self w u = (rb, self1, w1)"
      by (cases "poll_body self w u") auto
    show ?thesis
    proof (cases rb)
      case (Inl e)
      with b have "poll_loop self w u st ws wid = (Inl e, self1, w1)"
        by (subst unfold, subst if_P [OF True]) simp
      with less.prems have eq: "r = Inl e" "self' = self1" "w' = w1"
        by simp_all
      from poll_body_Inl [of self w u e self1 w1] b Inl obtain evs where
        f: "static self1 = static self" "files w1 = files w" "server w1 = server w"
          "today w1 = today w" "trace w1 = trace w @ evs" "cut_round self u e evs"
        by blast
      have "trace w' = trace w @ evs \<and> loop_trace self u (err_of r) evs"
        using eq f loop_trace_cut by simp
      then have "\<exists>evs. trace w' = trace w @ evs \<and> loop_trace self u (err_of r) evs" ..
      with eq f show ?thesis
        by simp
    next
      case (Inr p)
      obtain st1 wid1 where p: "p = (st1, wid1)"
        by (cases p)
      with b Inr have "poll_loop self w u st ws wid = poll_loop self1 w1 u st1 (ws + 5) wid1"
        by (subst unfold, subst if_P [OF True]) simp
      with less.prems have rec: "poll_loop self1 w1 u st1 (ws + 5) wid1 = (r, self', w')"
        by simp
      from poll_body_round [of self w u st1 wid1 self1 w1] b Inr p obtain h evs where
        f: "self1 = self\<lparr>header := h\<rparr>" "files w1 = files w" "server w1 = server w"
          "today w1 = today w" "trace w1 = trace w @ evs" "full_round self u evs"
        by auto
      have t: "timeout self1 = timeout self"
        using f(1) by simp
      have "nat (timeout self1 - (ws + 5)) < nat (timeout self - ws)"
        using True t by simp
      from less.hyps [OF this rec] obtain evs' where
        ih: "static self' = static self1" "files w' = files w1" "server w' = server w1"
          "today w' = today w1" "trace w' = trace w1 @ evs'" "loop_trace self1 u (err_of r) evs'"
        by blast
      have "loop_trace self u (err_of r) evs'"
        using ih(6) f(1) by simp
      then have "trace w' = trace w @ (evs @ evs') \<and> loop_trace self u (err_of r) (evs @ evs')"
        using ih(5) f(5,6) loop_trace_cons by simp
      then have "\<exists>evs. trace w' = trace w @ evs \<and> loop_trace self u (err_of r) evs" ..
      moreover have "static self' = static self"
        using ih(1) f(1) by simp
      ultimately show ?thesis
        using ih f by simp
    qed
  qed
qed


section \<open>\<open>take_snapshot\<close> up to the end of the poll loop\<close>

lemma take_snapshot_split:
  assumes "take_snapshot self w = (r, self', w')"
  shows "(\<exists>pre e. r = Inl e \<and> trace w' = trace w @ pre \<and> poll_phase self (Some e) pre \<and>
            files w' = files w \<and> static self' = static self) \<or>
         (\<exists>pre. r = Inr RetFalse \<and>
            trace w' = trace w @ pre @ [Print [S ''Timeout exceeded. Snapshot not completed.'']] \<and>
            poll_phase self None pre \<and> files w' = files w \<and> static self' = static self) \<or>
         (\<exists>pre self5 w5 wid. take_snapshot_export self5 w5 wid = (r, self', w') \<and>
            trace w5 = trace w @ pre \<and> poll_phase self None pre \<and> files w5 = files w \<and>
            static self5 = static self)"
  (is "?A \<or> ?B \<or> ?C")
proof -
  define w1 where "w1 = print [S ''Creating snapshot...''] w"
  define T where "T = Api ''POST'' (instance' self @ base_path self @ ''/exports/fullExport'')
     (header self) (proxies self) (Some [(''exportType'', JStr ''SNAPSHOT'')]) None False (next_reply w1)"
  define w2 where "w2 = sent T w1"
  have tr2: "trace w2 = trace w @ [Print [S ''Creating snapshot...''], T]"
    by (simp add: w2_def w1_def)
  have fl2: "files w2 = files w"
    by (simp add: w2_def w1_def)
  have acc: "access_leanix_api self w1 (instance' self @ base_path self @ ''/exports/fullExport'')
       ''POST'' None (Some [(''exportType'', JStr ''SNAPSHOT'')]) False =
     (case next_reply w1 of NoReply \<Rightarrow> Inl ConnectionError
      | Reply resp \<Rightarrow> if http_error resp then Inl (HTTPError (status_code resp)) else Inr resp, w2)"
    by (simp add: access_POST_sent w2_def T_def)
  have early: ?A
    if "r = Inl e" "w' = w2" "self' = self" "\<forall>c. reply_failure (next_reply w1) = Some c \<longrightarrow> e = HTTPError c"
    for e
  proof -
    have "poll_phase self (Some e) [Print [S ''Creating snapshot...''], T]"
      unfolding poll_phase_def T_def
      apply (rule exI [of _ "next_reply w1"])
      apply (rule exI [of _ "[]"])
      apply (rule exI [of _ "[]"])
      using that by simp
    have "r = Inl e \<and> trace w' = trace w @ [Print [S ''Creating snapshot...''], T] \<and>
        poll_phase self (Some e) [Print [S ''Creating snapshot...''], T] \<and>
        files w' = files w \<and> static self' = static self"
      using that tr2 fl2 \<open>poll_phase self (Some e) [Print [S ''Creating snapshot...''], T]\<close>
      by simp
    then show ?thesis
      by (intro exI)
  qed
  show ?thesis
  proof (cases "next_reply w1")
    case NoReply
    with assms acc have "r = Inl ConnectionError" "w' = w2" "self' = self"
      by (simp_all add: take_snapshot_def Let_def w1_def [symmetric])
    then have ?A
      by (rule early) (simp add: NoReply)
    then show ?thesis
      by (rule disjI1)
  next
    case (Reply resp)
    show ?thesis
    proof (cases "http_error resp")
      case True
      with Reply assms acc have "r = Inl (HTTPError (status_code resp))" "w' = w2" "self' = self"
        by (simp_all add: take_snapshot_def Let_def w1_def [symmetric])
      then have ?A
        by (rule early) (simp add: Reply True)
      then show ?thesis
        by (rule disjI1)
    next
      case False
      with Reply acc have acc': "access_leanix_api self w1
          (instance' self @ base_path self @ ''/exports/fullExport'')
          ''POST'' None (Some [(''exportType'', JStr ''SNAPSHOT'')]) False = (Inr resp, w2)"
        by simp
      have nofail: "reply_failure (next_reply w1) = None"
        using Reply False by simp
      show ?thesis
      proof (cases "json_path resp [K ''data'', K ''jobId'']")
        case (Inl e)
        with assms acc' have "r = Inl e" "w' = w2" "self' = self"
          by (simp_all add: take_snapshot_def Let_def w1_def [symmetric])
        then have ?A
          by (rule early) (simp add: nofail)
        then show ?thesis
          by (rule disjI1)
      next
        case (Inr job_id)
        define w4 where "w4 = print [S ''Waiting for snapshot to complete, this may take some time...'']
          (print [S ''Job ID: '', J job_id] w2)"
        define mid where "mid = [Print [S ''Job ID: '', J job_id],
          Print [S ''Waiting for snapshot to complete, this may take some time...'']]"
        have tr4: "trace w4 = trace w @ Print [S ''Creating snapshot...''] # T # mid"
          by (simp add: w4_def mid_def tr2)
        have fl4: "files w4 = files w"
          by (simp add: w4_def fl2)
        have midp: "\<forall>e\<in>set mid. \<exists>x. e = Print x"
          by (simp add: mid_def)
        have phase: "poll_phase self eo (Print [S ''Creating snapshot...''] # T # mid @ evs)"
          if "loop_trace self (instance' self @ base_path self @ ''/jobs/'' @ x) eo evs" for eo evs x
          unfolding poll_phase_def T_def
          apply (rule exI [of _ "next_reply w1"])
          apply (rule exI [of _ mid])
          apply (rule exI [of _ evs])
          using that midp nofail by (auto simp: T_def)
        show ?thesis
        proof (cases "as_str job_id")
          case (Inr jid)
          then have JStr: "job_id = JStr jid"
            by simp
          obtain rl self5 w5 where loop:
            "poll_loop self w4 (instance' self @ base_path self @ ''/jobs/'' @ jid @ ''/status'')
               JNull 0 JNull = (rl, self5, w5)"
            using prod_cases3 by blast
          from poll_loop_trace [OF loop] obtain evs where
            l: "static self5 = static self" "files w5 = files w4" "trace w5 = trace w4 @ evs"
              "loop_trace self (instance' self @ base_path self @ ''/jobs/'' @ jid @ ''/status'')
                 (err_of rl) evs"
            by blast
          have tr5: "trace w5 = trace w @ Print [S ''Creating snapshot...''] # T # mid @ evs"
            using l(3) tr4 by simp
          note ph = phase [OF l(4)]
          have run: "take_snapshot self w =
            (case rl of Inl e \<Rightarrow> (Inl e, self5, w5)
             | Inr (status, waiting_since, workspace_id) \<Rightarrow>
                 if waiting_since \<ge> timeout self5 then
                   (Inr RetFalse, self5, print [S ''Timeout exceeded. Snapshot not completed.''] w5)
                 else take_snapshot_export self5 w5 workspace_id)"
            using acc' \<open>json_path resp [K ''data'', K ''jobId''] = Inr job_id\<close> JStr
              loop [unfolded w4_def]
            by (cases rl)
              (simp_all add: take_snapshot_def Let_def w1_def [symmetric] split: prod.splits)
          show ?thesis
          proof (cases rl)
            case (Inl e)
            with run assms have eq: "r = Inl e" "self' = self5" "w' = w5"
              by simp_all
            have "r = Inl e \<and>
                trace w' = trace w @ (Print [S ''Creating snapshot...''] # T # mid @ evs) \<and>
                poll_phase self (Some e) (Print [S ''Creating snapshot...''] # T # mid @ evs) \<and>
                files w' = files w \<and> static self' = static self"
              using eq ph Inl tr5 l fl4 by simp
            then have ?A
              by (intro exI)
            then show ?thesis
              by (rule disjI1)
          next
            case (Inr v)
            obtain status waiting_since workspace_id where
              v: "v = (status, waiting_since, workspace_id)"
              by (cases v)
            show ?thesis
            proof (cases "waiting_since \<ge> timeout self5")
              case True
              with run assms Inr v have eq: "r = Inr RetFalse" "self' = self5"
                "w' = print [S ''Timeout exceeded. Snapshot not completed.''] w5"
                by simp_all
              have "r = Inr RetFalse \<and>
                  trace w' = trace w @ (Print [S ''Creating snapshot...''] # T # mid @ evs) @
                    [Print [S ''Timeout exceeded. Snapshot not completed.'']] \<and>
                  poll_phase self None (Print [S ''Creating snapshot...''] # T # mid @ evs) \<and>
                  files w' = files w \<and> static self' = static self"
                using eq ph Inr tr5 l fl4 by simp
              then have ?B
                by (intro exI)
              then show ?thesis
                by (intro disjI2 disjI1)
            next
              case False
              with run assms Inr v have
                ex: "take_snapshot_export self5 w5 workspace_id = (r, self', w')"
                by simp
              have "take_snapshot_export self5 w5 workspace_id = (r, self', w') \<and>
                  trace w5 = trace w @ (Print [S ''Creating snapshot...''] # T # mid @ evs) \<and>
                  poll_phase self None (Print [S ''Creating snapshot...''] # T # mid @ evs) \<and>
                  files w5 = files w \<and> static self5 = static self"
                using ex ph Inr tr5 l fl4 by simp
              then have ?C
                by (intro exI)
              then show ?thesis
                by (intro disjI2)
            qed
          qed
        next
          case (Inl e)
          with assms acc' Inr have eq: "r = Inl e" "w' = w4" "self' = self"
            by (simp_all add: take_snapshot_def Let_def w1_def [symmetric] w4_def [symmetric])
          have "poll_phase self (Some e) (Print [S ''Creating snapshot...''] # T # mid @ [])"
            unfolding poll_phase_def T_def
            apply (rule exI [of _ "next_reply w1"])
            apply (rule exI [of _ mid])
            apply (rule exI [of _ "[]"])
            using midp nofail by simp
          then have "r = Inl e \<and>
              trace w' = trace w @ (Print [S ''Creating snapshot...''] # T # mid @ []) \<and>
              poll_phase self (Some e) (Print [S ''Creating snapshot...''] # T # mid @ []) \<and>
              files w' = files w \<and> static self' = static self"
            using eq tr4 fl4 by simp
          then have ?A
            by (intro exI)
          then show ?thesis
            by (rule disjI1)
        qed
      qed
    qed
  qed
qed


section \<open>Events of the poll phase\<close>

lemma step_of_poll:
  "step_of self (Api m (instance' self @ base_path self @ ''/jobs/'' @ x) h p ps d st rp) = Some Poll"
  by simp

lemma step_of_trigger:
  "step_of self (Api m (instance' self @ base_path self @ ''/exports/fullExport'') h p ps d st rp) =
     Some Trigger"
  by simp

lemma step_of_metadata:
  "step_of self (Api m (instance' self @ base_path self @ ''/exports'') h p ps d st rp) =
     Some Metadata"
  by simp

lemma step_of_download:
  "step_of self (Api m (instance' self @ base_path self @ ''/exports/downloads/'' @ x) h p ps d st rp) =
     Some Download"
  by simp

lemmas step_of_urls [simp] =
  step_of_poll [unfolded append.simps] step_of_trigger step_of_metadata
  step_of_download [unfolded append.simps]

declare step_of.simps(1) [simp del]

lemma full_round_events:
  assumes "full_round self (instance' self @ base_path self @ ''/jobs/'' @ x) evs" and "ev \<in> set evs"
  shows "(step_of self ev = None \<and> \<not> is_api ev \<or> step_of self ev = Some Poll) \<and> \<not> is_write ev \<and>
         failure ev = None"
  using assms unfolding full_round_def by auto

lemma cut_round_events:
  assumes "cut_round self (instance' self @ base_path self @ ''/jobs/'' @ x) e evs" and "ev \<in> set evs"
  shows "(step_of self ev = None \<and> \<not> is_api ev \<or> step_of self ev = Some Poll) \<and> \<not> is_write ev \<and>
         (\<forall>c. failure ev = Some c \<longrightarrow> e = HTTPError c)"
  using assms unfolding cut_round_def by auto

lemma loop_trace_events:
  assumes "loop_trace self (instance' self @ base_path self @ ''/jobs/'' @ x) eo evs"
    and "ev \<in> set evs"
  shows "(step_of self ev = None \<and> \<not> is_api ev \<or> step_of self ev = Some Poll) \<and> \<not> is_write ev \<and>
         (\<forall>c. failure ev = Some c \<longrightarrow> eo = Some (HTTPError c))"
proof -
  let ?u = "instance' self @ base_path self @ ''/jobs/'' @ x"
  from assms(1) obtain rs tl where
    h: "evs = concat rs @ tl" "\<forall>x\<in>set rs. full_round self ?u x"
      "case eo of None \<Rightarrow> tl = [] | Some e \<Rightarrow> cut_round self ?u e tl"
    unfolding loop_trace_def by blast
  from assms(2) h(1) consider (round) r where "r \<in> set rs" "ev \<in> set r" | (tail) "ev \<in> set tl"
    by auto
  then show ?thesis
  proof cases
    case round
    with h(2) have "full_round self ?u r"
      by blast
    from full_round_events [OF this round(2)] show ?thesis
      by simp
  next
    case tail
    with h(3) obtain e where e: "eo = Some e" "cut_round self ?u e tl"
      by (cases eo) auto
    from cut_round_events [OF e(2) tail] e(1) show ?thesis
      by simp
  qed
qed

lemma poll_phase_events:
  assumes "poll_phase self eo pre" and "ev \<in> set pre"
  shows "(step_of self ev = None \<and> \<not> is_api ev \<or> step_of self ev = Some Trigger \<or>
          step_of self ev = Some Poll) \<and>
         \<not> is_write ev \<and> (\<forall>c. failure ev = Some c \<longrightarrow> eo = Some (HTTPError c))"
proof -
  from assms(1) obtain rp0 mid evs where
    h: "pre = Print [S ''Creating snapshot...''] #
              Api ''POST'' (instance' self @ base_path self @ ''/exports/fullExport'')
                (header self) (proxies self) (Some [(''exportType'', JStr ''SNAPSHOT'')]) None
                False rp0 # mid @ evs"
      "\<forall>e\<in>set mid. \<exists>x. e = Print x"
      "(evs = [] \<and> (\<exists>e. eo = Some e \<and> (\<forall>c. reply_failure rp0 = Some c \<longrightarrow> e = HTTPError c))) \<or>
       (reply_failure rp0 = None \<and>
        (\<exists>x. loop_trace self (instance' self @ base_path self @ ''/jobs/'' @ x) eo evs))"
    unfolding poll_phase_def by blast
  from assms(2) h(1) consider (first) "ev = Print [S ''Creating snapshot...'']"
    | (trigger) "ev = Api ''POST'' (instance' self @ base_path self @ ''/exports/fullExport'')
                (header self) (proxies self) (Some [(''exportType'', JStr ''SNAPSHOT'')]) None
                False rp0"
    | (mid) "ev \<in> set mid" | (loop) "ev \<in> set evs"
    by auto
  then show ?thesis
  proof cases
    case first
    then show ?thesis by simp
  next
    case trigger
    have "\<forall>c. reply_failure rp0 = Some c \<longrightarrow> eo = Some (HTTPError c)"
      using h(3) by auto
    with trigger show ?thesis
      by simp
  next
    case mid
    with h(2) obtain x where "ev = Print x"
      by blast
    then show ?thesis by simp
  next
    case loop
    with h(3) obtain x where
      "loop_trace self (instance' self @ base_path self @ ''/jobs/'' @ x) eo evs"
      by auto
    from loop_trace_events [OF this loop] show ?thesis
      by blast
  qed
qed


section \<open>From the metadata lookup to the end of \<open>take_snapshot\<close>\<close>

lemma write_file_fields [simp]:
  "server (write_file f cs w) = server w" "nreq (write_file f cs w) = nreq w"
  "today (write_file f cs w) = today w"
  "trace (write_file f cs w) = trace w @ [FileWrite f (concat cs)]"
  "files (write_file f cs w) = (files w)(f \<mapsto> concat cs)"
  by (simp_all add: write_file_def)

lemma next_reply_print [simp]: "next_reply (print x w) = next_reply w"
  by (simp add: next_reply_def)

lemma py_del_update [simp]: "py_del k (AList.update k v h) = Inr (AList.delete k h)"
  by (simp add: py_del_def dom_update delete_update_same)

lemma get_today_date_frame [simp]:
  "get_today_date (sent e w) = get_today_date w" "get_today_date (print x w) = get_today_date w"
  by (simp_all add: get_today_date_def)

lemma step_of_metadata_event [simp]: "step_of self (metadata_event self rp) = Some Metadata"
  by (simp add: metadata_event_def)

lemma step_of_download_event [simp]: "step_of self (download_event self h wid k rp) = Some Download"
  by (simp add: download_event_def)

lemma failure_export_events [simp]:
  "failure (metadata_event self rp) = reply_failure rp"
  "failure (download_event self h wid k rp) = reply_failure rp"
  "\<not> is_write (metadata_event self rp)" "\<not> is_write (download_event self h wid k rp)"
  by (simp_all add: metadata_event_def download_event_def)

text \<open>The outcomes of the \<open>try\<close> body, by the reply to the download request.\<close>

lemma take_snapshot_download_sent:
  "take_snapshot_download (self\<lparr>header := Some (AList.update ''Accept'' ''application/octet-stream'' h)\<rparr>)
      w (instance' self @ base_path self @ ''/exports/downloads/'' @ wid) k =
     (let w1 = sent (download_event self h wid k (next_reply w)) w
      in case next_reply w of
           NoReply \<Rightarrow> (Inl ConnectionError, w1)
         | Reply binary \<Rightarrow>
             if http_error binary then (Inl (HTTPError (status_code binary)), w1)
             else (case config_get (config self) ''OPTIONAL'' ''EXPORT_FILENAME'' of
                     Inl e \<Rightarrow> (Inl e, w1)
                   | Inr template \<Rightarrow>
                       (let filename = str_replace template ''{cdate}'' (get_today_date w);
                            w2 = print [S ''Writing snapshot to '', S filename] w1;
                            w3 = (if status_code binary = 200
                                  then write_file filename (iter_content 1024 (content binary)) w2
                                  else w2)
                        in (Inr (), print [S ''Saved to file '', S filename] w3))))"
proof (cases "next_reply w")
  case NoReply
  then show ?thesis
    by (simp add: take_snapshot_download_def access_GET_sent download_event_def)
next
  case (Reply binary)
  then show ?thesis
    by (cases "http_error binary")
      (simp_all add: take_snapshot_download_def access_GET_sent download_event_def Let_def
        split: sum.split)
qed

lemma config_get_error: "config_get c sec k = Inl e \<Longrightarrow> e = KeyError"
  by (auto simp: config_get_def split: option.splits)

text \<open>
  Every way \<open>take_snapshot\<close> can end once its poll loop is over, with the result, the
  client and the world each one leaves.
\<close>

lemma export_cases [consumes 1, case_names meta_raise not_completed no_url download_raise
    download_http saved]:
  assumes run: "take_snapshot_export self w wid = (r, self', w')"
  obtains
    (meta_raise) e where
      "r = Inl e" "self' = self" "files w' = files w"
      "take (length (trace w)) (trace w') = trace w"
      "events_since w w' = [metadata_event self (next_reply w)]"
      "\<forall>c. reply_failure (next_reply w) = Some c \<longrightarrow> e = HTTPError c"
      "\<And>data s k. next_reply w = Reply data \<Longrightarrow> \<not> http_error data \<Longrightarrow>
         json_path data [K ''data'', I 0, K ''status''] = Inr s \<Longrightarrow>
         json_path data [K ''data'', I 0, K ''downloadKey''] = Inr k \<Longrightarrow> False"
  | (not_completed) data s k where
      "next_reply w = Reply data" "\<not> http_error data"
      "json_path data [K ''data'', I 0, K ''status''] = Inr s" "s \<noteq> JStr ''COMPLETED''"
      "json_path data [K ''data'', I 0, K ''downloadKey''] = Inr k"
      "r = Inr RetFalse" "self' = self" "files w' = files w"
      "take (length (trace w)) (trace w') = trace w"
      "events_since w w' =
         [metadata_event self (Reply data), Print [S ''Snapshot not completed. Status: '', J s]]"
  | (no_url) data k where
      "next_reply w = Reply data" "\<not> http_error data"
      "json_path data [K ''data'', I 0, K ''status''] = Inr (JStr ''COMPLETED'')"
      "json_path data [K ''data'', I 0, K ''downloadKey''] = Inr k"
      "r = Inl TypeError" "self' = self" "files w' = files w"
      "take (length (trace w)) (trace w') = trace w"
      "events_since w w' =
         [metadata_event self (Reply data), Print [S ''Snapshot completed. Downloading...'']]"
  | (download_raise) data k ws h e where
      "next_reply w = Reply data" "\<not> http_error data"
      "json_path data [K ''data'', I 0, K ''status''] = Inr (JStr ''COMPLETED'')"
      "json_path data [K ''data'', I 0, K ''downloadKey''] = Inr k"
      "wid = JStr ws" "header self = Some h"
      "reply_failure (server w (Suc (nreq w))) = None" "\<not> is_HTTPError e"
      "\<And>binary. server w (Suc (nreq w)) = Reply binary \<Longrightarrow>
         config_get (config self) ''OPTIONAL'' ''EXPORT_FILENAME'' = Inl e"
      "r = Inl e"
      "self' = self\<lparr>header := Some (AList.update ''Accept'' ''application/octet-stream'' h)\<rparr>"
      "files w' = files w"
      "take (length (trace w)) (trace w') = trace w"
      "events_since w w' =
         [metadata_event self (Reply data), Print [S ''Snapshot completed. Downloading...''],
          download_event self h ws k (server w (Suc (nreq w)))]"
  | (download_http) data k ws h binary where
      "next_reply w = Reply data" "\<not> http_error data"
      "json_path data [K ''data'', I 0, K ''status''] = Inr (JStr ''COMPLETED'')"
      "json_path data [K ''data'', I 0, K ''downloadKey''] = Inr k"
      "wid = JStr ws" "header self = Some h"
      "server w (Suc (nreq w)) = Reply binary" "http_error binary"
      "r = Inr RetNone"
      "self' = self\<lparr>header := Some (AList.update ''Accept'' ''application/octet-stream'' h)\<rparr>"
      "files w' = files w"
      "take (length (trace w)) (trace w') = trace w"
      "events_since w w' =
         [metadata_event self (Reply data), Print [S ''Snapshot completed. Downloading...''],
          download_event self h ws k (Reply binary),
          Print [S ''Error while downloading snapshot: '', E (HTTPError (status_code binary))]]"
  | (saved) data k ws h binary template where
      "next_reply w = Reply data" "\<not> http_error data"
      "json_path data [K ''data'', I 0, K ''status''] = Inr (JStr ''COMPLETED'')"
      "json_path data [K ''data'', I 0, K ''downloadKey''] = Inr k"
      "wid = JStr ws" "header self = Some h"
      "server w (Suc (nreq w)) = Reply binary" "\<not> http_error binary"
      "config_get (config self) ''OPTIONAL'' ''EXPORT_FILENAME'' = Inr template"
      "r = Inr RetNone"
      "self' = self\<lparr>header := Some (AList.delete ''Accept'' h)\<rparr>"
      "files w' =
         (if status_code binary = 200
          then (files w)(str_replace template ''{cdate}'' (get_today_date w) \<mapsto>
                 concat (iter_content 1024 (content binary)))
          else files w)"
      "take (length (trace w)) (trace w') = trace w"
      "events_since w w' =
         [metadata_event self (Reply data), Print [S ''Snapshot completed. Downloading...''],
          download_event self h ws k (Reply binary),
          Print [S ''Writing snapshot to '',
                 S (str_replace template ''{cdate}'' (get_today_date w))]] @
         (if status_code binary = 200
          then [FileWrite (str_replace template ''{cdate}'' (get_today_date w))
                  (concat (iter_content 1024 (content binary)))]
          else []) @
         [Print [S ''Saved to file '', S (str_replace template ''{cdate}'' (get_today_date w))]]"
proof -
  define w1 where "w1 = sent (metadata_event self (next_reply w)) w"
  have acc: "access_leanix_api self w (instance' self @ base_path self @ ''/exports'') ''GET''
       (Some (JObj [(''exportType'', JStr ''SNAPSHOT'')]))
       (Some [(''exportType'', JStr ''SNAPSHOT''), (''pageSize'', JNum 1),
              (''sorting'', JStr ''createdAt''), (''sortDirection'', JStr ''DESC'')]) False =
     (case next_reply w of NoReply \<Rightarrow> Inl ConnectionError
      | Reply resp \<Rightarrow> if http_error resp then Inl (HTTPError (status_code resp)) else Inr resp, w1)"
    by (simp add: access_GET_sent w1_def metadata_event_def)
  note unf = take_snapshot_export_def Let_def acc
  show thesis
  proof (cases "next_reply w")
    case NoReply
    with run have "r = Inl ConnectionError" "self' = self" "w' = w1"
      by (simp_all add: unf)
    then show thesis
      using NoReply by (intro meta_raise [of ConnectionError]) (simp_all add: w1_def events_since_def)
  next
    case (Reply data)
    show thesis
    proof (cases "http_error data")
      case True
      with Reply run have "r = Inl (HTTPError (status_code data))" "self' = self" "w' = w1"
        by (simp_all add: unf)
      then show thesis
        using Reply True by (intro meta_raise [of "HTTPError (status_code data)"]) (simp_all add: w1_def events_since_def)
    next
      case False
      note ok = Reply False
      show thesis
      proof (cases "json_path data [K ''data'', I 0, K ''status'']")
        case (Inl e)
        with ok run have "r = Inl e" "self' = self" "w' = w1"
          by (simp_all add: unf)
        then show thesis
          using ok Inl by (intro meta_raise [of e]) (simp_all add: w1_def events_since_def)
      next
        case (Inr s)
        note st = this
        show thesis
        proof (cases "json_path data [K ''data'', I 0, K ''downloadKey'']")
          case (Inl e)
          with ok st run have "r = Inl e" "self' = self" "w' = w1"
            by (simp_all add: unf)
          then show thesis
            using ok Inl by (intro meta_raise [of e]) (simp_all add: w1_def events_since_def)
        next
          case (Inr k)
          note key = this
          show thesis
          proof (cases "s = JStr ''COMPLETED''")
            case False
            with ok st key run have "r = Inr RetFalse" "self' = self"
              "w' = print [S ''Snapshot not completed. Status: '', J s] w1"
              by (simp_all add: unf)
            then show thesis
              using ok st key False by (intro not_completed [of data s k]) (simp_all add: w1_def events_since_def)
          next
            case True
            note st' = st [unfolded True]
            define w2 where "w2 = print [S ''Snapshot completed. Downloading...''] w1"
            have nr2: "next_reply w2 = server w (Suc (nreq w))"
              by (simp add: w2_def w1_def next_reply_def)
            have td2: "get_today_date w2 = get_today_date w"
              by (simp add: w2_def w1_def)
            show thesis
            proof (cases "as_str wid")
              case (Inl e)
              then have "e = TypeError"
                by (cases wid) simp_all
              with Inl ok st' key run have "r = Inl TypeError" "self' = self" "w' = w2"
                by (simp_all add: unf w2_def)
              then show thesis
                using ok st' key by (intro no_url [of data k]) (simp_all add: w1_def w2_def events_since_def)
            next
              case (Inr ws)
              then have wid: "wid = JStr ws"
                by simp
              show thesis
              proof (cases "header self")
                case None
                with Inr ok st' key run have "r = Inl TypeError" "self' = self" "w' = w2"
                  by (simp_all add: unf w2_def)
                then show thesis
                  using ok st' key by (intro no_url [of data k]) (simp_all add: w1_def w2_def events_since_def)
              next
                case (Some h)
                define self1 where
                  "self1 = self\<lparr>header := Some (AList.update ''Accept'' ''application/octet-stream'' h)\<rparr>"
                define w3 where "w3 = sent (download_event self h ws k (next_reply w2)) w2"
                have run': "(r, self', w') =
                  (case take_snapshot_download self1 w2
                          (instance' self @ base_path self @ ''/exports/downloads/'' @ ws) k of
                     (Inl e, w3) \<Rightarrow>
                       if is_HTTPError e then
                         (Inr RetNone, self1,
                          print [S ''Error while downloading snapshot: '', E e] w3)
                       else (Inl e, self1, w3)
                   | (Inr x, w3) \<Rightarrow> (Inr RetNone, self\<lparr>header := Some (AList.delete ''Accept'' h)\<rparr>, w3))"
                  using Inr ok st' key Some run [symmetric]
                  by (simp add: unf w2_def self1_def split: prod.splits sum.splits)
                note dl = take_snapshot_download_sent
                  [where self = self and h = h and w = w2 and wid = ws and k = k,
                    folded self1_def w3_def]
                show thesis
                proof (cases "next_reply w2")
                  case NoReply
                  with run' dl have "r = Inl ConnectionError" "self' = self1" "w' = w3"
                    by (simp_all add: Let_def)
                  then show thesis
                    using ok st' key wid Some NoReply [unfolded nr2]
                    by (intro download_raise [of data k ws h ConnectionError])
                      (simp_all add: w1_def w2_def w3_def self1_def events_since_def)
                next
                  case (Reply binary)
                  note b = this
                  have b': "server w (Suc (nreq w)) = Reply binary"
                    using b nr2 by simp
                  have w3: "w3 = sent (download_event self h ws k (Reply binary)) w2"
                    using b by (simp add: w3_def)
                  show thesis
                  proof (cases "http_error binary")
                    case True
                    with b run' dl have "r = Inr RetNone" "self' = self1"
                      "w' = print [S ''Error while downloading snapshot: '',
                                   E (HTTPError (status_code binary))] w3"
                      by (simp_all add: Let_def)
                    then show thesis
                      using ok st' key wid Some b' True
                      by (intro download_http [of data k ws h binary])
                        (simp_all add: w1_def w2_def w3 self1_def events_since_def)
                  next
                    case False
                    show thesis
                    proof (cases "config_get (config self) ''OPTIONAL'' ''EXPORT_FILENAME''")
                      case (Inl e)
                      then have e: "e = KeyError"
                        by (rule config_get_error)
                      from Inl b False run' dl have "r = Inl e" "self' = self1" "w' = w3"
                        by (simp_all add: Let_def e)
                      then show thesis
                        using ok st' key wid Some b' False e Inl
                        by (intro download_raise [of data k ws h e])
                          (simp_all add: w1_def w2_def w3 self1_def events_since_def)
                    next
                      case (Inr template)
                      with b False run' dl td2 have "r = Inr RetNone"
                        "self' = self\<lparr>header := Some (AList.delete ''Accept'' h)\<rparr>"
                        "w' = print [S ''Saved to file '',
                                     S (str_replace template ''{cdate}'' (get_today_date w))]
                                ((if status_code binary = 200
                                  then write_file (str_replace template ''{cdate}'' (get_today_date w))
                                         (iter_content 1024 (content binary))
                                  else (\<lambda>x. x))
                                   (print [S ''Writing snapshot to '',
                                           S (str_replace template ''{cdate}'' (get_today_date w))]
                                      w3))"
                        by (simp_all add: Let_def)
                      then show thesis
                        using ok st' key wid Some b' False Inr
                        by (intro saved [of data k ws h binary template])
                          (simp_all add: w1_def w2_def w3 events_since_def)
                    qed
                  qed
                qed
              qed
            qed
          qed
        qed
      qed
    qed
  qed
qed


lemma export_trace:
  assumes "take_snapshot_export self w wid = (r, self', w')"
  shows "trace w' = trace w @ events_since w w'" and "static self' = static self"
proof -
  from assms have "take (length (trace w)) (trace w') = trace w \<and> static self' = static self"
    by (cases rule: export_cases) simp_all
  then show "trace w' = trace w @ events_since w w'" and "static self' = static self"
    using append_take_drop_id [of "length (trace w)" "trace w'"]
    by (simp_all add: events_since_def)
qed

lemma events_since_trans:
  assumes "trace w1 = trace w @ pre" and "trace w' = trace w1 @ post"
  shows "events_since w w' = pre @ post"
  using assms by (simp add: events_since_def)


section \<open>Every run of \<open>take_snapshot\<close>\<close>

text \<open>
  The runs of \<open>take_snapshot\<close>, by where they end: an exception before the metadata lookup,
  the timeout, and the six outcomes after the poll loop. \<open>pre\<close> is the trace of the poll
  phase, \<open>s5\<close> the client as the poll loop left it.
\<close>

lemma take_snapshot_cases [consumes 1, case_names raised timed_out meta_raise not_completed
    no_url download_raise download_http saved]:
  assumes run: "take_snapshot self w = (r, self', w')"
  obtains
    (raised) pre e where
      "r = Inl e" "events_since w w' = pre" "poll_phase self (Some e) pre"
      "files w' = files w" "static self' = static self"
  | (timed_out) pre where
      "r = Inr RetFalse"
      "events_since w w' = pre @ [Print [S ''Timeout exceeded. Snapshot not completed.'']]"
      "poll_phase self None pre" "files w' = files w" "static self' = static self"
  | (meta_raise) pre s5 rp e where
      "poll_phase self None pre" "static s5 = static self"
      "r = Inl e" "self' = s5" "files w' = files w"
      "events_since w w' = pre @ [metadata_event s5 rp]"
      "\<forall>c. reply_failure rp = Some c \<longrightarrow> e = HTTPError c"
      "\<And>data s k. rp = Reply data \<Longrightarrow> \<not> http_error data \<Longrightarrow>
         json_path data [K ''data'', I 0, K ''status''] = Inr s \<Longrightarrow>
         json_path data [K ''data'', I 0, K ''downloadKey''] = Inr k \<Longrightarrow> False"
  | (not_completed) pre s5 data s k where
      "poll_phase self None pre" "static s5 = static self"
      "\<not> http_error data"
      "json_path data [K ''data'', I 0, K ''status''] = Inr s" "s \<noteq> JStr ''COMPLETED''"
      "json_path data [K ''data'', I 0, K ''downloadKey''] = Inr k"
      "r = Inr RetFalse" "self' = s5" "files w' = files w"
      "events_since w w' =
         pre @ [metadata_event s5 (Reply data),
                Print [S ''Snapshot not completed. Status: '', J s]]"
  | (no_url) pre s5 data k where
      "poll_phase self None pre" "static s5 = static self"
      "\<not> http_error data"
      "json_path data [K ''data'', I 0, K ''status''] = Inr (JStr ''COMPLETED'')"
      "json_path data [K ''data'', I 0, K ''downloadKey''] = Inr k"
      "r = Inl TypeError" "self' = s5" "files w' = files w"
      "events_since w w' =
         pre @ [metadata_event s5 (Reply data), Print [S ''Snapshot completed. Downloading...'']]"
  | (download_raise) pre s5 data k ws h rp e where
      "poll_phase self None pre" "static s5 = static self"
      "\<not> http_error data"
      "json_path data [K ''data'', I 0, K ''status''] = Inr (JStr ''COMPLETED'')"
      "json_path data [K ''data'', I 0, K ''downloadKey''] = Inr k"
      "header s5 = Some h"
      "reply_failure rp = None" "\<not> is_HTTPError e"
      "\<And>binary. rp = Reply binary \<Longrightarrow>
         config_get (config self) ''OPTIONAL'' ''EXPORT_FILENAME'' = Inl e"
      "r = Inl e"
      "self' = s5\<lparr>header := Some (AList.update ''Accept'' ''application/octet-stream'' h)\<rparr>"
      "files w' = files w"
      "events_since w w' =
         pre @ [metadata_event s5 (Reply data), Print [S ''Snapshot completed. Downloading...''],
                download_event s5 h ws k rp]"
  | (download_http) pre s5 data k ws h binary where
      "poll_phase self None pre" "static s5 = static self"
      "\<not> http_error data"
      "json_path data [K ''data'', I 0, K ''status''] = Inr (JStr ''COMPLETED'')"
      "json_path data [K ''data'', I 0, K ''downloadKey''] = Inr k"
      "header s5 = Some h"
      "http_error binary"
      "r = Inr RetNone"
      "self' = s5\<lparr>header := Some (AList.update ''Accept'' ''application/octet-stream'' h)\<rparr>"
      "files w' = files w"
      "events_since w w' =
         pre @ [metadata_event s5 (Reply data), Print [S ''Snapshot completed. Downloading...''],
                download_event s5 h ws k (Reply binary),
                Print [S ''Error while downloading snapshot: '',
                       E (HTTPError (status_code binary))]]"
  | (saved) pre s5 data k ws h binary fn where
      "poll_phase self None pre" "static s5 = static self"
      "\<not> http_error data"
      "json_path data [K ''data'', I 0, K ''status''] = Inr (JStr ''COMPLETED'')"
      "json_path data [K ''data'', I 0, K ''downloadKey''] = Inr k"
      "header s5 = Some h"
      "\<not> http_error binary"
      "r = Inr RetNone"
      "self' = s5\<lparr>header := Some (AList.delete ''Accept'' h)\<rparr>"
      "files w' =
         (if status_code binary = 200
          then (files w)(fn \<mapsto> concat (iter_content 1024 (content binary)))
          else files w)"
      "events_since w w' =
         pre @ [metadata_event s5 (Reply data), Print [S ''Snapshot completed. Downloading...''],
                download_event s5 h ws k (Reply binary),
                Print [S ''Writing snapshot to '', S fn]] @
         (if status_code binary = 200
          then [FileWrite fn (concat (iter_content 1024 (content binary)))]
          else []) @
         [Print [S ''Saved to file '', S fn]]"
proof -
  from take_snapshot_split [OF run] consider
    (a) pre e where "r = Inl e" "trace w' = trace w @ pre" "poll_phase self (Some e) pre"
      "files w' = files w" "static self' = static self"
  | (b) pre where "r = Inr RetFalse"
      "trace w' = trace w @ pre @ [Print [S ''Timeout exceeded. Snapshot not completed.'']]"
      "poll_phase self None pre" "files w' = files w" "static self' = static self"
  | (c) pre s5 w5 wid where "take_snapshot_export s5 w5 wid = (r, self', w')"
      "trace w5 = trace w @ pre" "poll_phase self None pre" "files w5 = files w"
      "static s5 = static self"
    by blast
  then show thesis
  proof cases
    case a
    from a(2) have "events_since w w' = pre"
      by (rule events_since_append)
    with a show thesis
      by (intro raised [of e pre])
  next
    case b
    from b(2) have "events_since w w' = pre @ [Print [S ''Timeout exceeded. Snapshot not completed.'']]"
      by (rule events_since_append)
    with b show thesis
      by (intro timed_out [of pre])
  next
    case c
    note ev = events_since_trans [OF c(2) export_trace(1) [OF c(1)]]
    from c(1) show thesis
    proof (cases rule: export_cases)
      case (meta_raise e)
      show thesis
        by (rule that(3) [of pre s5 e "next_reply w5"])
          (use meta_raise c ev in auto)
    next
      case (not_completed data s k)
      show thesis
        by (rule that(4) [of pre s5 data s k])
          (use not_completed c ev in simp_all)
    next
      case (no_url data k)
      show thesis
        by (rule that(5) [of pre s5 data k])
          (use no_url c ev in simp_all)
    next
      case (download_raise data k ws h e)
      show thesis
        by (rule that(6) [of pre s5 data k h "server w5 (Suc (nreq w5))" e ws])
          (use download_raise c ev static_fields(7) [OF c(5)] in auto)
    next
      case (download_http data k ws h binary)
      show thesis
        by (rule that(7) [of pre s5 data k h binary ws])
          (use download_http c ev in simp_all)
    next
      case (saved data k ws h binary template)
      show thesis
        by (rule that(8) [of pre s5 data k h binary "str_replace template ''{cdate}'' (get_today_date w5)" ws])
          (use saved c ev in simp_all)
    qed
  qed
qed


section \<open>Evaluating concrete runs\<close>

lemmas run_simps = take_snapshot_def access_POST_sent access_GET_sent connect_sent
  poll_loop.simps poll_body_def take_snapshot_export_def take_snapshot_download_def Let_def
  next_reply_def sent_def print_def sleep_def script_def start_def example_self_def
  trigger_reply_def token_reply_def status_reply_def export_reply_def ok_json_def
  json_path_def http_error_def write_file_def py_del_def events_since_def

lemmas file_simps = example_config_def config_get_def get_today_date_def str_nat.simps pad2_def
  iter_content.simps

section \<open>Claims about the outcome of \<open>take_snapshot\<close>\<close>

lemma poll_phase_no_export:
  assumes "poll_phase self eo pre" and "ev \<in> set pre"
  shows "step_of self ev \<noteq> Some Metadata" "step_of self ev \<noteq> Some Download" "\<not> is_write ev"
  using poll_phase_events [OF assms] by auto

lemma export_event_steps:
  assumes "static s5 = static self"
  shows "step_of self (metadata_event s5 rp) = Some Metadata"
    and "step_of self (download_event s5 h ws k rp) = Some Download"
  using step_of_static [OF assms, of "metadata_event s5 rp"]
    step_of_static [OF assms, of "download_event s5 h ws k rp"]
  by simp_all

lemma metadata_event_reply:
  "Api m u h p ps d st rp = metadata_event s5 rp' \<Longrightarrow> rp = rp'"
  by (simp add: metadata_event_def)

lemma download_event_reply:
  "Api m u h p ps d st rp = download_event s5 h' ws k rp' \<Longrightarrow> rp = rp' \<and> st"
  by (simp add: download_event_def)

text \<open>
  Claim C6 does not hold for every metadata response. The key is read from the first
  entry before the status is tested: when the entry reports the status \<open>FAILED\<close> and
  carries no \<open>downloadKey\<close>, \<open>take_snapshot\<close> raises \<open>KeyError\<close> instead of returning
  \<open>False\<close>.
\<close>

theorem metadata_without_key_raises:
  "json_path (Response 200 (Some (JObj [(''data'', JArr [JObj [(''status'', JStr ''FAILED'')]])])) [])
     [K ''data'', I 0, K ''status''] = Inr (JStr ''FAILED'') \<and>
   Api ''GET'' ''https://h/services/pathfinder/v1/exports''
      (Some [(''Authorization'', ''Bearer tok'')]) None
      (Some [(''exportType'', JStr ''SNAPSHOT''), (''pageSize'', JNum 1),
             (''sorting'', JStr ''createdAt''), (''sortDirection'', JStr ''DESC'')])
      (Some (JObj [(''exportType'', JStr ''SNAPSHOT'')])) False (export_reply_no_key ''FAILED'')
     \<in> set (trace (snd (snd (take_snapshot example_self (start (script
          [trigger_reply, token_reply, status_reply ''DONE'', export_reply_no_key ''FAILED'']))))))
   \<and>
   fst (take_snapshot example_self (start (script
      [trigger_reply, token_reply, status_reply ''DONE'', export_reply_no_key ''FAILED''])))
     = Inl KeyError"
  by (simp add: run_simps export_reply_no_key_def)

text \<open>
  Claim C6, as amended. When the export-metadata lookup is answered (without an HTTP error)
  by a document whose first entry has a status other than \<open>COMPLETED\<close>, the run sends no
  download request and writes no file; when that entry also carries a download key,
  \<open>take_snapshot\<close> returns \<open>False\<close>.
\<close>

theorem metadata_not_completed_aborts:
  assumes run: "take_snapshot self w = (r, self', w')"
    and ev: "Api m u h p ps d st (Reply data) \<in> set (events_since w w')"
    and step: "step_of self (Api m u h p ps d st (Reply data)) = Some Metadata"
    and ok: "\<not> http_error data"
    and status: "json_path data [K ''data'', I 0, K ''status''] = Inr s" "s \<noteq> JStr ''COMPLETED''"
  shows "files w' = files w \<and>
         (\<forall>e\<in>set (events_since w w'). step_of self e \<noteq> Some Download \<and> \<not> is_write e) \<and>
         (\<forall>k. json_path data [K ''data'', I 0, K ''downloadKey''] = Inr k \<longrightarrow> r = Inr RetFalse)"
proof -
  let ?ev = "Api m u h p ps d st (Reply data)"
  have pre: False if "poll_phase self eo pre" "?ev \<in> set pre" for eo pre
    using poll_phase_no_export(1) [OF that] step by simp
  have completed: False
    if "?ev = metadata_event s5 (Reply data')"
      "json_path data' [K ''data'', I 0, K ''status''] = Inr (JStr ''COMPLETED'')" for s5 data'
    using metadata_event_reply [OF that(1)] that(2) status by simp
  have dl: False if "static s5 = static self" "?ev = download_event s5 h' ws k' rp" for s5 h' ws k' rp
    using export_event_steps(2) [OF that(1), of h' ws k' rp] step that(2) by simp
  from run show ?thesis
  proof (cases rule: take_snapshot_cases)
    case (raised pre e)
    with ev pre show ?thesis by auto
  next
    case (timed_out pre)
    with ev pre step show ?thesis by auto
  next
    case (meta_raise pre s5 rp e)
    from ev meta_raise(6) pre [OF meta_raise(1)] have "?ev = metadata_event s5 rp"
      by auto
    from metadata_event_reply [OF this] have rp: "rp = Reply data"
      by simp
    have quiet: "step_of self e \<noteq> Some Download \<and> \<not> is_write e"
      if "e \<in> set (events_since w w')" for e
      using that meta_raise(6) poll_phase_no_export [OF meta_raise(1), of e]
        export_event_steps(1) [OF meta_raise(2)]
      by (auto simp: metadata_event_def)
    have "r = Inr RetFalse" if "json_path data [K ''data'', I 0, K ''downloadKey''] = Inr k" for k
      using meta_raise(8) [OF rp ok status(1) that] ..
    with quiet meta_raise(5) show ?thesis
      by simp
  next
    case (not_completed pre s5 data' s' k')
    have "step_of self e \<noteq> Some Download \<and> \<not> is_write e" if "e \<in> set (events_since w w')" for e
      using that not_completed(10) poll_phase_no_export [OF not_completed(1), of e]
        export_event_steps(1) [OF not_completed(2)]
      by auto
    with not_completed show ?thesis
      by simp
  next
    case (no_url pre s5 data' k')
    from ev no_url(9) pre [OF no_url(1)] step
    have "?ev = metadata_event s5 (Reply data')"
      by auto
    from completed [OF this no_url(4)] show ?thesis ..
  next
    case (download_raise pre s5 data' k' ws h' rp e)
    from ev download_raise(13) pre [OF download_raise(1)] step dl [OF download_raise(2)]
    have "?ev = metadata_event s5 (Reply data')"
      by auto
    from completed [OF this download_raise(4)] show ?thesis ..
  next
    case (download_http pre s5 data' k' ws h' binary)
    from ev download_http(11) pre [OF download_http(1)] step dl [OF download_http(2)]
    have "?ev = metadata_event s5 (Reply data')"
      by auto
    from completed [OF this download_http(4)] show ?thesis ..
  next
    case (saved pre s5 data' k' ws h' binary fn)
    from ev saved(11) pre [OF saved(1)] step dl [OF saved(2)]
    have "?ev = metadata_event s5 (Reply data')"
      by (auto split: if_splits)
    from completed [OF this saved(4)] show ?thesis ..
  qed
qed

theorem metadata_not_completed_aborts_witness:
  "fst (take_snapshot example_self (start (script
      [trigger_reply, token_reply, status_reply ''DONE'', export_reply ''FAILED'']))) = Inr RetFalse \<and>
   files (snd (snd (take_snapshot example_self (start (script
      [trigger_reply, token_reply, status_reply ''DONE'', export_reply ''FAILED''])))))
     = files (start (script
      [trigger_reply, token_reply, status_reply ''DONE'', export_reply ''FAILED'']))"
proof -
  let ?w = "start (script [trigger_reply, token_reply, status_reply ''DONE'', export_reply ''FAILED''])"
  let ?X = "take_snapshot example_self ?w"
  let ?data = "Response 200 (Some (JObj [(''data'',
      JArr [JObj [(''status'', JStr ''FAILED''), (''downloadKey'', JStr ''k'')]])])) []"
  have run: "?X = (fst ?X, fst (snd ?X), snd (snd ?X))"
    by simp
  have ev: "Api ''GET'' ''https://h/services/pathfinder/v1/exports''
      (Some [(''Authorization'', ''Bearer tok'')]) None
      (Some [(''exportType'', JStr ''SNAPSHOT''), (''pageSize'', JNum 1),
             (''sorting'', JStr ''createdAt''), (''sortDirection'', JStr ''DESC'')])
      (Some (JObj [(''exportType'', JStr ''SNAPSHOT'')])) False (Reply ?data)
    \<in> set (events_since ?w (snd (snd ?X)))"
    by (simp add: run_simps)
  have step: "step_of example_self (Api ''GET'' ''https://h/services/pathfinder/v1/exports''
      (Some [(''Authorization'', ''Bearer tok'')]) None
      (Some [(''exportType'', JStr ''SNAPSHOT''), (''pageSize'', JNum 1),
             (''sorting'', JStr ''createdAt''), (''sortDirection'', JStr ''DESC'')])
      (Some (JObj [(''exportType'', JStr ''SNAPSHOT'')])) False (Reply ?data)) = Some Metadata"
    by (simp add: example_self_def step_of.simps)
  have ok: "\<not> http_error ?data"
    by (simp add: http_error_def)
  have status: "json_path ?data [K ''data'', I 0, K ''status''] = Inr (JStr ''FAILED'')"
    "JStr ''FAILED'' \<noteq> JStr ''COMPLETED''"
    by (simp_all add: json_path_def)
  have key: "json_path ?data [K ''data'', I 0, K ''downloadKey''] = Inr (JStr ''k'')"
    by (simp add: json_path_def)
  from metadata_not_completed_aborts [OF run ev step ok status] key
  show ?thesis
    by simp
qed

text \<open>
  Claim C4. An exchange answered with an HTTP error code ends \<open>take_snapshot\<close> in one of two
  ways. If it is the binary download, the error is caught: the method prints the error and
  returns \<open>None\<close>. If it is the export trigger, a status poll or the metadata lookup, the
  \<open>HTTPError\<close> reaches the caller. Every gateway exchange of a run is one of these four.
\<close>

theorem http_error_caught_only_in_download:
  assumes run: "take_snapshot self w = (r, self', w')"
    and ev: "Api m u h p ps d st (Reply resp) \<in> set (events_since w w')"
    and err: "http_error resp"
  shows "(step_of self (Api m u h p ps d st (Reply resp)) = Some Download \<longrightarrow>
            r = Inr RetNone \<and>
            last (events_since w w') =
              Print [S ''Error while downloading snapshot: '', E (HTTPError (status_code resp))]) \<and>
         (step_of self (Api m u h p ps d st (Reply resp)) \<in> {Some Trigger, Some Poll, Some Metadata} \<longrightarrow>
            r = Inl (HTTPError (status_code resp))) \<and>
         step_of self (Api m u h p ps d st (Reply resp)) \<noteq> None"
proof -
  let ?ev = "Api m u h p ps d st (Reply resp)"
  have fl: "failure ?ev = Some (status_code resp)"
    using err by simp
  have pre: "eo = Some (HTTPError (status_code resp)) \<and>
      (step_of self ?ev = Some Trigger \<or> step_of self ?ev = Some Poll)"
    if "poll_phase self eo pre" "?ev \<in> set pre" for eo pre
    using poll_phase_events [OF that] fl by simp
  have quiet: "?ev \<notin> set pre" if "poll_phase self None pre" for pre
    using pre [OF that] by auto
  have meta: False if "?ev = metadata_event s5 (Reply data)" "\<not> http_error data" for s5 data
    using metadata_event_reply [OF that(1)] that(2) err by simp
  from run show ?thesis
  proof (cases rule: take_snapshot_cases)
    case (raised pre e)
    with ev pre [of "Some e" pre] show ?thesis
      by auto
  next
    case (timed_out pre)
    with ev quiet show ?thesis
      by auto
  next
    case (meta_raise pre s5 rp e)
    from ev meta_raise(6) quiet [OF meta_raise(1)] have eq: "?ev = metadata_event s5 rp"
      by auto
    from metadata_event_reply [OF eq] have "rp = Reply resp"
      by simp
    with meta_raise(7) err have "e = HTTPError (status_code resp)"
      by simp
    with meta_raise(3) eq export_event_steps(1) [OF meta_raise(2), of rp] show ?thesis
      by simp
  next
    case (not_completed pre s5 data s k)
    from ev not_completed(10) quiet [OF not_completed(1)]
    have "?ev = metadata_event s5 (Reply data)"
      by auto
    from meta [OF this not_completed(3)] show ?thesis ..
  next
    case (no_url pre s5 data k)
    from ev no_url(9) quiet [OF no_url(1)]
    have "?ev = metadata_event s5 (Reply data)"
      by auto
    from meta [OF this no_url(3)] show ?thesis ..
  next
    case (download_raise pre s5 data k ws h' rp e)
    from ev download_raise(13) quiet [OF download_raise(1)]
    consider "?ev = metadata_event s5 (Reply data)" | "?ev = download_event s5 h' ws k rp"
      by auto
    then show ?thesis
    proof cases
      case 1
      from meta [OF this download_raise(3)] show ?thesis ..
    next
      case 2
      from download_event_reply [OF this] download_raise(7) err show ?thesis
        by auto
    qed
  next
    case (download_http pre s5 data k ws h' binary)
    from ev download_http(11) quiet [OF download_http(1)]
    consider "?ev = metadata_event s5 (Reply data)"
      | "?ev = download_event s5 h' ws k (Reply binary)"
      by auto
    then show ?thesis
    proof cases
      case 1
      from meta [OF this download_http(3)] show ?thesis ..
    next
      case 2
      from download_event_reply [OF 2] have "binary = resp"
        by simp
      with 2 download_http(8,11) export_event_steps(2) [OF download_http(2), of h' ws k "Reply binary"]
      show ?thesis
        by simp
    qed
  next
    case (saved pre s5 data k ws h' binary fn)
    from ev saved(11) quiet [OF saved(1)]
    consider "?ev = metadata_event s5 (Reply data)"
      | "?ev = download_event s5 h' ws k (Reply binary)"
      by (auto split: if_splits)
    then show ?thesis
    proof cases
      case 1
      from meta [OF this saved(3)] show ?thesis ..
    next
      case 2
      from download_event_reply [OF 2] saved(7) err show ?thesis
        by auto
    qed
  qed
qed

theorem http_error_caught_only_in_download_witness:
  "fst (take_snapshot example_self (start (script
      [trigger_reply, token_reply, status_reply ''DONE'', export_reply ''COMPLETED'',
       Reply (Response 404 None [])]))) = Inr RetNone \<and>
   fst (take_snapshot example_self (start (script
      [trigger_reply, token_reply, Reply (Response 500 None [])]))) = Inl (HTTPError 500)"
proof -
  let ?w = "start (script [trigger_reply, token_reply, status_reply ''DONE'',
    export_reply ''COMPLETED'', Reply (Response 404 None [])])"
  let ?X = "take_snapshot example_self ?w"
  have run: "?X = (fst ?X, fst (snd ?X), snd (snd ?X))"
    by simp
  have ev: "Api ''GET'' ''https://h/services/pathfinder/v1/exports/downloads/w1''
      (Some [(''Authorization'', ''Bearer tok''), (''Accept'', ''application/octet-stream'')]) None
      (Some [(''key'', JStr ''k'')]) None True (Reply (Response 404 None []))
    \<in> set (events_since ?w (snd (snd ?X)))"
    by (simp add: run_simps)
  let ?v = "start (script [trigger_reply, token_reply, Reply (Response 500 None [])])"
  let ?Y = "take_snapshot example_self ?v"
  have run': "?Y = (fst ?Y, fst (snd ?Y), snd (snd ?Y))"
    by simp
  have ev': "Api ''GET'' ''https://h/services/pathfinder/v1/jobs/j1/status''
      (Some [(''Authorization'', ''Bearer tok'')]) None None None False
      (Reply (Response 500 None []))
    \<in> set (events_since ?v (snd (snd ?Y)))"
    by (simp add: run_simps)
  from http_error_caught_only_in_download [OF run ev]
    http_error_caught_only_in_download [OF run' ev']
  show ?thesis
    by (simp add: example_self_def http_error_def step_of.simps)
qed


text \<open>
  Claim C9. Let the download be answered without an HTTP error, and let the configuration
  name an export file. Then \<open>take_snapshot\<close> returns \<open>None\<close> and its last line reports
  the file as saved, whatever the status code; but a file is written exactly when the
  status code is 200, and for any other code the file system is left as it was.
\<close>

theorem snapshot_written_only_on_200:
  assumes run: "take_snapshot self w = (r, self', w')"
    and ev: "Api m u h p ps d st (Reply resp) \<in> set (events_since w w')"
    and step: "step_of self (Api m u h p ps d st (Reply resp)) = Some Download"
    and ok: "\<not> http_error resp"
    and cfg: "config_get (config self) ''OPTIONAL'' ''EXPORT_FILENAME'' = Inr template"
  shows "r = Inr RetNone \<and>
         (\<exists>fn. last (events_since w w') = Print [S ''Saved to file '', S fn]) \<and>
         ((\<exists>e\<in>set (events_since w w'). is_write e) \<longleftrightarrow> status_code resp = 200) \<and>
         (status_code resp \<noteq> 200 \<longrightarrow> files w' = files w)"
proof -
  let ?ev = "Api m u h p ps d st (Reply resp)"
  have pre: "?ev \<notin> set pre" if "poll_phase self eo pre" for eo pre
    using poll_phase_no_export(2) [OF that, of ?ev] step by auto
  have meta: "?ev \<noteq> metadata_event s5 rp" if "static s5 = static self" for s5 rp
    using export_event_steps(1) [OF that, of rp] step by auto
  from run show ?thesis
  proof (cases rule: take_snapshot_cases)
    case (raised pre e)
    with ev pre show ?thesis by auto
  next
    case (timed_out pre)
    with ev pre show ?thesis by auto
  next
    case (meta_raise pre s5 rp e)
    with ev pre meta show ?thesis by auto
  next
    case (not_completed pre s5 data s k)
    with ev pre meta show ?thesis by auto
  next
    case (no_url pre s5 data k)
    with ev pre meta show ?thesis by auto
  next
    case (download_raise pre s5 data k ws h' rp e)
    from ev download_raise(13) pre [OF download_raise(1)] meta [OF download_raise(2)]
    have "?ev = download_event s5 h' ws k rp"
      by auto
    from download_event_reply [OF this] have "rp = Reply resp"
      by simp
    from download_raise(9) [OF this] cfg show ?thesis
      by simp
  next
    case (download_http pre s5 data k ws h' binary)
    from ev download_http(11) pre [OF download_http(1)] meta [OF download_http(2)]
    have "?ev = download_event s5 h' ws k (Reply binary)"
      by auto
    from download_event_reply [OF this] download_http(7) ok show ?thesis
      by auto
  next
    case (saved pre s5 data k ws h' binary fn)
    from ev saved(11) pre [OF saved(1)] meta [OF saved(2)]
    have "?ev = download_event s5 h' ws k (Reply binary)"
      by (auto split: if_splits)
    from download_event_reply [OF this] have b: "binary = resp"
      by simp
    have nowrite: "\<not> is_write e" if "e \<in> set pre" for e
      using poll_phase_no_export(3) [OF saved(1) that] .
    have "(\<exists>e\<in>set (events_since w w'). is_write e) \<longleftrightarrow> status_code resp = 200"
      using saved(11) b nowrite by auto
    moreover have "last (events_since w w') = Print [S ''Saved to file '', S fn]"
      using saved(11) by simp
    ultimately show ?thesis
      using saved(8,10) b by auto
  qed
qed

theorem snapshot_written_only_on_200_witness:
  "fst (take_snapshot example_self (start (script
      [trigger_reply, token_reply, status_reply ''DONE'', export_reply ''COMPLETED'',
       Reply (Response 204 None [])]))) = Inr RetNone \<and>
   files (snd (snd (take_snapshot example_self (start (script
      [trigger_reply, token_reply, status_reply ''DONE'', export_reply ''COMPLETED'',
       Reply (Response 204 None [])]))))) = Map.empty"
proof -
  let ?w = "start (script [trigger_reply, token_reply, status_reply ''DONE'',
    export_reply ''COMPLETED'', Reply (Response 204 None [])])"
  let ?X = "take_snapshot example_self ?w"
  have run: "?X = (fst ?X, fst (snd ?X), snd (snd ?X))"
    by simp
  have ev: "Api ''GET'' ''https://h/services/pathfinder/v1/exports/downloads/w1''
      (Some [(''Authorization'', ''Bearer tok''), (''Accept'', ''application/octet-stream'')]) None
      (Some [(''key'', JStr ''k'')]) None True (Reply (Response 204 None []))
    \<in> set (events_since ?w (snd (snd ?X)))"
    by (simp add: run_simps file_simps)
  have cfg: "config_get (config example_self) ''OPTIONAL'' ''EXPORT_FILENAME'' =
      Inr ''export_{cdate}.xlsx''"
    by (simp add: example_self_def example_config_def config_get_def)
  have step: "step_of example_self (Api ''GET''
      ''https://h/services/pathfinder/v1/exports/downloads/w1''
      (Some [(''Authorization'', ''Bearer tok''), (''Accept'', ''application/octet-stream'')]) None
      (Some [(''key'', JStr ''k'')]) None True (Reply (Response 204 None []))) = Some Download"
    by (simp add: example_self_def step_of.simps)
  have ok: "\<not> http_error (Response 204 None [])"
    by (simp add: http_error_def)
  from snapshot_written_only_on_200 [OF run ev step ok cfg]
  show ?thesis
    by (simp add: start_def)
qed

text \<open>
  Claim C3. The claim fails on the code. When the download is answered with an HTTP error,
  the handler returns before the statement that deletes the \<open>Accept\<close> entry: the header
  the client keeps still carries \<open>Accept: application/octet-stream\<close>. After a download
  that succeeds, the header is again what it was before the download step.
\<close>

theorem accept_header_left_behind:
  "fst (take_snapshot example_self (start (script
      [trigger_reply, token_reply, status_reply ''DONE'', export_reply ''COMPLETED'',
       Reply (Response 404 None [])]))) = Inr RetNone \<and>
   header (fst (snd (take_snapshot example_self (start (script
      [trigger_reply, token_reply, status_reply ''DONE'', export_reply ''COMPLETED'',
       Reply (Response 404 None [])]))))) =
     Some [(''Authorization'', ''Bearer tok''), (''Accept'', ''application/octet-stream'')] \<and>
   header (fst (snd (take_snapshot example_self (start (script
      [trigger_reply, token_reply, status_reply ''DONE'', export_reply ''COMPLETED'',
       Reply (Response 200 None ''abc'')]))))) =
     Some [(''Authorization'', ''Bearer tok'')]"
  by (simp add: run_simps file_simps)


section \<open>Running into the timeout\<close>

lemma poll_body_good:
  assumes "token_ok (next_reply w)" and "poll_status (server w (Suc (nreq w))) = Some s"
  shows "\<exists>wid self1 w1. poll_body self w u = (Inr (s, wid), self1, w1) \<and>
           nreq w1 = nreq w + 2 \<and> server w1 = server w \<and> timeout self1 = timeout self"
proof -
  from assms(1) obtain a tok where
    a: "next_reply w = Reply a" "\<not> http_error a" "json_path a [K ''access_token''] = Inr (JStr tok)"
    by (auto simp: token_ok_def split: reply.splits sum.splits json.splits)
  from assms(2) obtain b wid pr tt where
    b: "server w (Suc (nreq w)) = Reply b" "\<not> http_error b"
      "json_path b [K ''data'', K ''status''] = Inr s"
      "json_path b [K ''data'', K ''workspaceId''] = Inr wid"
      "json_path b [K ''data'', K ''processed''] = Inr pr"
      "json_path b [K ''data'', K ''total''] = Inr tt"
    by (auto simp: poll_status_def split: reply.splits sum.splits if_splits)
  have "poll_body self w u = (Inr (s, wid),
      self\<lparr>header := Some [(''Authorization'', ''Bearer '' @ tok)]\<rparr>,
      sleep 5 (print [S ''Status: '', J s, S ''Progress:'', J pr, S ''/'', J tt]
        (sent (Api ''GET'' u (Some [(''Authorization'', ''Bearer '' @ tok)]) (proxies self)
                 None None False (Reply b))
           (sent (Auth (instance' self @ ''/services/mtm/v1/oauth2/token'') (apitoken self)
                    (proxies self) (Reply a)) w))))"
    using a b by (simp add: poll_body_def connect_sent access_GET_sent Let_def)
  then show ?thesis
    by simp
qed

lemma poll_loop_timeout:
  assumes "\<forall>k. ws + 5 * int k < timeout self \<longrightarrow>
      token_ok (server w (nreq w + 2 * k)) \<and>
      (\<exists>s. poll_status (server w (nreq w + 2 * k + 1)) = Some s \<and>
           (ws + 5 * int k + 5 < timeout self \<longrightarrow> s \<noteq> JStr ''DONE''))"
    and "st \<noteq> JStr ''DONE'' \<or> timeout self \<le> ws"
  shows "\<exists>st' ws' wid' self' w' n. poll_loop self w u st ws wid = (Inr (st', ws', wid'), self', w') \<and>
           timeout self' \<le> ws' \<and> (ws < timeout self \<longrightarrow> ws' < timeout self' + 5) \<and>
           ws' = ws + 5 * int n \<and> nreq w' = nreq w + 2 * n"
  using assms
proof (induction "nat (timeout self - ws)" arbitrary: self w st ws wid rule: less_induct)
  case less
  note unfold = poll_loop.simps [of self w u st ws wid]
  show ?case
  proof (cases "ws < timeout self")
    case False
    then have "\<not> (st \<noteq> JStr ''DONE'' \<and> ws < timeout self)"
      by simp
    then have "poll_loop self w u st ws wid = (Inr (st, ws, wid), self, w)"
      by (subst unfold) (simp only: if_False)
    with False show ?thesis
      by (intro exI [of _ st] exI [of _ ws] exI [of _ wid] exI [of _ self] exI [of _ w]
          exI [of _ 0]) simp
  next
    case True
    with less.prems(2) have c: "st \<noteq> JStr ''DONE'' \<and> ws < timeout self"
      by simp
    from less.prems(1) [rule_format, of 0] True obtain s where
      k0: "token_ok (next_reply w)" "poll_status (server w (Suc (nreq w))) = Some s"
        "ws + 5 < timeout self \<longrightarrow> s \<noteq> JStr ''DONE''"
      by (auto simp: next_reply_def)
    from poll_body_good [OF k0(1,2), of self u] obtain wid1 self1 w1 where
      b: "poll_body self w u = (Inr (s, wid1), self1, w1)" "nreq w1 = nreq w + 2"
        "server w1 = server w" "timeout self1 = timeout self"
      by blast
    have step: "poll_loop self w u st ws wid = poll_loop self1 w1 u s (ws + 5) wid1"
      by (subst unfold, subst if_P [OF c]) (simp add: b(1))
    have m: "nat (timeout self1 - (ws + 5)) < nat (timeout self - ws)"
      using True b(4) by simp
    have h1: "\<forall>k. ws + 5 + 5 * int k < timeout self1 \<longrightarrow>
        token_ok (server w1 (nreq w1 + 2 * k)) \<and>
        (\<exists>s. poll_status (server w1 (nreq w1 + 2 * k + 1)) = Some s \<and>
             (ws + 5 + 5 * int k + 5 < timeout self1 \<longrightarrow> s \<noteq> JStr ''DONE''))"
    proof (intro allI impI)
      fix k
      assume "ws + 5 + 5 * int k < timeout self1"
      then have "ws + 5 * int (Suc k) < timeout self"
        using b(4) by simp
      from less.prems(1) [rule_format, OF this] show
        "token_ok (server w1 (nreq w1 + 2 * k)) \<and>
         (\<exists>s. poll_status (server w1 (nreq w1 + 2 * k + 1)) = Some s \<and>
              (ws + 5 + 5 * int k + 5 < timeout self1 \<longrightarrow> s \<noteq> JStr ''DONE''))"
        using b(2,3,4) by (simp add: algebra_simps)
    qed
    have h2: "s \<noteq> JStr ''DONE'' \<or> timeout self1 \<le> ws + 5"
      using k0(3) b(4) by auto
    from less.hyps [OF m h1 h2, of wid1] obtain st' ws' wid' self' w' n where
      ih: "poll_loop self1 w1 u s (ws + 5) wid1 = (Inr (st', ws', wid'), self', w')"
        "timeout self' \<le> ws'" "ws + 5 < timeout self1 \<longrightarrow> ws' < timeout self' + 5"
        "ws' = ws + 5 + 5 * int n" "nreq w' = nreq w1 + 2 * n"
      by blast
    have t: "timeout self' = timeout self"
      using poll_loop_trace [OF ih(1)] static_fields(5) [of self' self1] b(4) by simp
    have "ws' < timeout self' + 5"
    proof (cases "ws + 5 < timeout self1")
      case True
      with ih(3) show ?thesis by simp
    next
      case False
      then have "\<not> (s \<noteq> JStr ''DONE'' \<and> ws + 5 < timeout self1)"
        by simp
      then have "poll_loop self1 w1 u s (ws + 5) wid1 = (Inr (s, ws + 5, wid1), self1, w1)"
        by (subst poll_loop.simps) (simp only: if_False)
      with ih(1) have "ws' = ws + 5" "self' = self1"
        by simp_all
      with c b(4) show ?thesis
        by simp
    qed
    with ih step b(2) show ?thesis
      by (intro exI [of _ st'] exI [of _ ws'] exI [of _ wid'] exI [of _ self'] exI [of _ w']
          exI [of _ "Suc n"]) simp
  qed
qed


lemma take_snapshot_after_trigger:
  assumes "trigger_ok (next_reply w)"
  shows "\<exists>jid w4. nreq w4 = Suc (nreq w) \<and> server w4 = server w \<and> files w4 = files w \<and>
           (\<exists>t x y. trace w4 = trace w @ [Print [S ''Creating snapshot...''], t, Print x, Print y] \<and>
              step_of self t = Some Trigger) \<and>
           take_snapshot self w =
             (case poll_loop self w4
                     (instance' self @ base_path self @ ''/jobs/'' @ jid @ ''/status'')
                     JNull 0 JNull of
                (Inl e, s5, w5) \<Rightarrow> (Inl e, s5, w5)
              | (Inr (st, ws, wid), s5, w5) \<Rightarrow>
                  if timeout s5 \<le> ws then
                    (Inr RetFalse, s5, print [S ''Timeout exceeded. Snapshot not completed.''] w5)
                  else take_snapshot_export s5 w5 wid)"
proof -
  from assms obtain a jid where
    a: "next_reply w = Reply a" "\<not> http_error a"
      "json_path a [K ''data'', K ''jobId''] = Inr (JStr jid)"
    by (auto simp: trigger_ok_def split: reply.splits sum.splits json.splits)
  define t where "t = Api ''POST'' (instance' self @ base_path self @ ''/exports/fullExport'')
     (header self) (proxies self) (Some [(''exportType'', JStr ''SNAPSHOT'')]) None False (Reply a)"
  define w4 where "w4 = print [S ''Waiting for snapshot to complete, this may take some time...'']
     (print [S ''Job ID: '', J (JStr jid)] (sent t (print [S ''Creating snapshot...''] w)))"
  have "take_snapshot self w =
     (case poll_loop self w4 (instance' self @ base_path self @ ''/jobs/'' @ jid @ ''/status'')
             JNull 0 JNull of
        (Inl e, s5, w5) \<Rightarrow> (Inl e, s5, w5)
      | (Inr (st, ws, wid), s5, w5) \<Rightarrow>
          if timeout s5 \<le> ws then
            (Inr RetFalse, s5, print [S ''Timeout exceeded. Snapshot not completed.''] w5)
          else take_snapshot_export s5 w5 wid)"
    using a by (simp add: take_snapshot_def access_POST_sent Let_def w4_def t_def)
  moreover have "nreq w4 = Suc (nreq w)" "server w4 = server w" "files w4 = files w"
    by (simp_all add: w4_def)
  moreover have "\<exists>t x y. trace w4 = trace w @ [Print [S ''Creating snapshot...''], t, Print x, Print y] \<and>
      step_of self t = Some Trigger"
    by (intro exI [of _ t] exI [of _ "[S ''Job ID: '', J (JStr jid)]"]
        exI [of _ "[S ''Waiting for snapshot to complete, this may take some time...'']"])
      (simp add: w4_def t_def)
  ultimately show ?thesis
    by blast
qed

lemma take_snapshot_times_out:
  assumes tmo: "timeout self = 7200"
    and trig: "trigger_ok (server w (nreq w))"
    and polls: "\<forall>k<1440. token_ok (server w (nreq w + 1 + 2 * k)) \<and>
        (\<exists>s. poll_status (server w (nreq w + 2 + 2 * k)) = Some s \<and>
             (k < 1439 \<longrightarrow> s \<noteq> JStr ''DONE''))"
    and run: "take_snapshot self w = (r, self', w')"
  shows "r = Inr RetFalse \<and> files w' = files w \<and> nreq w' = nreq w + 2881 \<and>
         last (events_since w w') = Print [S ''Timeout exceeded. Snapshot not completed.''] \<and>
         (\<forall>e\<in>set (events_since w w').
            step_of self e \<noteq> Some Metadata \<and> step_of self e \<noteq> Some Download \<and> \<not> is_write e)"
proof -
  let ?u = "\<lambda>jid. instance' self @ base_path self @ ''/jobs/'' @ jid @ ''/status''"
  from take_snapshot_after_trigger [of w self] trig obtain jid w4 t x y where
    w4: "nreq w4 = Suc (nreq w)" "server w4 = server w" "files w4 = files w"
      "trace w4 = trace w @ [Print [S ''Creating snapshot...''], t, Print x, Print y]"
      "step_of self t = Some Trigger"
    and eq: "take_snapshot self w =
      (case poll_loop self w4 (?u jid) JNull 0 JNull of
         (Inl e, s5, w5) \<Rightarrow> (Inl e, s5, w5)
       | (Inr (st, ws, wid), s5, w5) \<Rightarrow>
           if timeout s5 \<le> ws then
             (Inr RetFalse, s5, print [S ''Timeout exceeded. Snapshot not completed.''] w5)
           else take_snapshot_export s5 w5 wid)"
    by (auto simp: next_reply_def)
  have h: "\<forall>k. 0 + 5 * int k < timeout self \<longrightarrow>
      token_ok (server w4 (nreq w4 + 2 * k)) \<and>
      (\<exists>s. poll_status (server w4 (nreq w4 + 2 * k + 1)) = Some s \<and>
           (0 + 5 * int k + 5 < timeout self \<longrightarrow> s \<noteq> JStr ''DONE''))"
  proof (intro allI impI)
    fix k
    assume "0 + 5 * int k < timeout self"
    then have k: "k < 1440"
      using tmo by simp
    from polls [rule_format, OF k] obtain s where
      s: "token_ok (server w (nreq w + 1 + 2 * k))"
        "poll_status (server w (nreq w + 2 + 2 * k)) = Some s" "k < 1439 \<longrightarrow> s \<noteq> JStr ''DONE''"
      by blast
    have "0 + 5 * int k + 5 < timeout self \<longrightarrow> s \<noteq> JStr ''DONE''"
      using s(3) tmo by auto
    with s(1,2) show "token_ok (server w4 (nreq w4 + 2 * k)) \<and>
      (\<exists>s. poll_status (server w4 (nreq w4 + 2 * k + 1)) = Some s \<and>
           (0 + 5 * int k + 5 < timeout self \<longrightarrow> s \<noteq> JStr ''DONE''))"
      by (simp add: w4(1,2))
  qed
  from poll_loop_timeout [OF h, of JNull "?u jid" JNull] obtain st' ws' wid' s5 w5 n where
    l: "poll_loop self w4 (?u jid) JNull 0 JNull = (Inr (st', ws', wid'), s5, w5)"
      "timeout s5 \<le> ws'" "0 < timeout self \<longrightarrow> ws' < timeout s5 + 5"
      "ws' = 0 + 5 * int n" "nreq w5 = nreq w4 + 2 * n"
    by auto
  from poll_loop_trace [OF l(1)] obtain evs where
    f: "static s5 = static self" "files w5 = files w4" "trace w5 = trace w4 @ evs"
      "loop_trace self (?u jid) None evs"
    by auto
  have t5: "timeout s5 = 7200"
    using static_fields(5) [OF f(1)] tmo by simp
  have n: "n = 1440"
    using l(2,3,4) t5 tmo by simp
  from eq l(1,2) run have res: "r = Inr RetFalse"
    "w' = print [S ''Timeout exceeded. Snapshot not completed.''] w5"
    by simp_all
  have tr: "trace w' = trace w @ (Print [S ''Creating snapshot...''] # t # Print x # Print y # evs @
      [Print [S ''Timeout exceeded. Snapshot not completed.'']])"
    using res(2) f(3) w4(4) by simp
  note ev = events_since_append [OF tr]
  have "step_of self e \<noteq> Some Metadata \<and> step_of self e \<noteq> Some Download \<and> \<not> is_write e"
    if "e \<in> set (events_since w w')" for e
  proof -
    from that ev consider "e \<in> {Print [S ''Creating snapshot...''], Print x, Print y,
        Print [S ''Timeout exceeded. Snapshot not completed.'']}" | "e = t" | "e \<in> set evs"
      by auto
    then show ?thesis
    proof cases
      case 1
      then show ?thesis by auto
    next
      case 2
      with w4(5) show ?thesis
        by (cases t) auto
    next
      case 3
      from loop_trace_events [OF f(4) 3] show ?thesis
        by auto
    qed
  qed
  moreover have "last (events_since w w') = Print [S ''Timeout exceeded. Snapshot not completed.'']"
    using ev by simp
  moreover have "nreq w' = nreq w + 2881"
    using res(2) l(5) w4(1) n by simp
  moreover have "files w' = files w"
    using res(2) f(2) w4(3) by simp
  ultimately show ?thesis
    using res(1) by blast
qed


text \<open>
  Claim C5. Let the trigger succeed and let all 1440 status polls that fit into the 7200
  seconds be answered, after a successful re-authentication each, with a well-formed status
  other than \<open>DONE\<close>. Then \<open>take_snapshot\<close> returns \<open>False\<close> without raising; it has sent
  the trigger and 1440 token and status requests and nothing else: no metadata lookup, no
  download, no file written. Its last line reports the timeout.
\<close>

theorem timeout_returns_false:
  assumes tmo: "timeout self = 7200"
    and trig: "trigger_ok (server w (nreq w))"
    and polls: "\<forall>k<1440. token_ok (server w (nreq w + 1 + 2 * k)) \<and>
        (\<exists>s. poll_status (server w (nreq w + 2 + 2 * k)) = Some s \<and> s \<noteq> JStr ''DONE'')"
    and run: "take_snapshot self w = (r, self', w')"
  shows "r = Inr RetFalse \<and> files w' = files w \<and> nreq w' = nreq w + 2881 \<and>
         last (events_since w w') = Print [S ''Timeout exceeded. Snapshot not completed.''] \<and>
         (\<forall>e\<in>set (events_since w w').
            step_of self e \<noteq> Some Metadata \<and> step_of self e \<noteq> Some Download \<and> \<not> is_write e)"
proof (rule take_snapshot_times_out [OF tmo trig _ run])
  show "\<forall>k<1440. token_ok (server w (nreq w + 1 + 2 * k)) \<and>
      (\<exists>s. poll_status (server w (nreq w + 2 + 2 * k)) = Some s \<and>
           (k < 1439 \<longrightarrow> s \<noteq> JStr ''DONE''))"
    using polls by blast
qed

lemma poll_status_reply [simp]: "poll_status (status_reply st) = Some (JStr st)"
  by (simp add: poll_status_def status_reply_def ok_json_def http_error_def json_path_def)

lemma token_ok_reply [simp]: "token_ok token_reply"
  by (simp add: token_ok_def token_reply_def ok_json_def http_error_def json_path_def)

lemma trigger_ok_reply [simp]: "trigger_ok trigger_reply"
  by (simp add: trigger_ok_def trigger_reply_def ok_json_def http_error_def json_path_def)

theorem timeout_returns_false_witness:
  "fst (take_snapshot example_self (start never_done)) = Inr RetFalse \<and>
   nreq (snd (snd (take_snapshot example_self (start never_done)))) = 2881 \<and>
   files (snd (snd (take_snapshot example_self (start never_done)))) = Map.empty"
proof -
  let ?w = "start never_done"
  let ?X = "take_snapshot example_self ?w"
  have run: "?X = (fst ?X, fst (snd ?X), snd (snd ?X))"
    by simp
  have tmo: "timeout example_self = 7200"
    by (simp add: example_self_def)
  have trig: "trigger_ok (server ?w (nreq ?w))"
    by (simp add: start_def never_done_def)
  have polls: "\<forall>k<1440. token_ok (server ?w (nreq ?w + 1 + 2 * k)) \<and>
      (\<exists>s. poll_status (server ?w (nreq ?w + 2 + 2 * k)) = Some s \<and> s \<noteq> JStr ''DONE'')"
    by (simp add: start_def never_done_def)
  from timeout_returns_false [OF tmo trig polls run] show ?thesis
    by (simp add: start_def)
qed

text \<open>
  Claim C2. The claim fails on the code at the last poll the timeout allows. On the
  service \<open>late_done\<close> the 1440th status poll (request 2880, sent while the counter stands
  at 7195) is answered \<open>DONE\<close>. The body then raises the counter to 7200, the loop ends,
  and the test after the loop looks at the counter alone: \<open>take_snapshot\<close> reports a
  timeout and returns \<open>False\<close>, having sent 2881 requests, none of them the metadata lookup.
\<close>

theorem done_at_last_poll_is_timeout:
  "poll_status (late_done 2880) = Some (JStr ''DONE'') \<and>
   fst (take_snapshot example_self (start late_done)) = Inr RetFalse \<and>
   nreq (snd (snd (take_snapshot example_self (start late_done)))) = 2881 \<and>
   last (events_since (start late_done) (snd (snd (take_snapshot example_self (start late_done))))) =
     Print [S ''Timeout exceeded. Snapshot not completed.''] \<and>
   list_all (\<lambda>e. step_of example_self e \<noteq> Some Metadata)
     (events_since (start late_done) (snd (snd (take_snapshot example_self (start late_done)))))"
proof -
  let ?w = "start late_done"
  let ?X = "take_snapshot example_self ?w"
  have run: "?X = (fst ?X, fst (snd ?X), snd (snd ?X))"
    by simp
  have tmo: "timeout example_self = 7200"
    by (simp add: example_self_def)
  have trig: "trigger_ok (server ?w (nreq ?w))"
    by (simp add: start_def late_done_def)
  have polls: "\<forall>k<1440. token_ok (server ?w (nreq ?w + 1 + 2 * k)) \<and>
      (\<exists>s. poll_status (server ?w (nreq ?w + 2 + 2 * k)) = Some s \<and>
           (k < 1439 \<longrightarrow> s \<noteq> JStr ''DONE''))"
    by (simp add: start_def late_done_def)
  have "poll_status (late_done 2880) = Some (JStr ''DONE'')"
    by (simp add: late_done_def)
  with take_snapshot_times_out [OF tmo trig polls run] show ?thesis
    by (simp add: start_def list_all_iff)
qed


section \<open>Re-authentication before every status poll\<close>

lemma split_in_suffix:
  assumes "front @ evs = xs @ ev # ys" and "ev \<notin> set front"
  shows "\<exists>xs2. xs = front @ xs2 \<and> evs = xs2 @ ev # ys"
proof -
  from assms(1) consider us where "front = xs @ us" "us @ evs = ev # ys"
    | us where "front @ us = xs" "evs = us @ ev # ys"
    by (auto simp: append_eq_append_conv2)
  then show ?thesis
  proof cases
    case 1
    show ?thesis
    proof (cases us)
      case Nil
      with 1 show ?thesis by auto
    next
      case (Cons a us')
      with 1 assms(2) show ?thesis by auto
    qed
  next
    case 2
    then show ?thesis by auto
  qed
qed

lemma split_in_prefix:
  assumes "pre @ post = xs @ ev # ys" and "ev \<notin> set post"
  shows "\<exists>ys2. pre = xs @ ev # ys2"
proof -
  from assms(1) consider us where "pre = xs @ us" "us @ post = ev # ys"
    | us where "pre @ us = xs" "post = us @ ev # ys"
    by (auto simp: append_eq_append_conv2)
  then show ?thesis
  proof cases
    case 1
    show ?thesis
    proof (cases us)
      case Nil
      with 1 assms(2) show ?thesis by auto
    next
      case (Cons a us')
      with 1 show ?thesis by auto
    qed
  next
    case 2
    with assms(2) show ?thesis by auto
  qed
qed

lemma reauthenticated_shift:
  assumes "reauthenticated self xs ev"
    and "length (filter is_auth front) = length (filter (\<lambda>e. step_of self e = Some Poll) front)"
  shows "reauthenticated self (front @ xs) ev"
proof -
  from assms(1) obtain xs' a tok m u p ps d st rp where
    h: "xs = xs' @ [Auth (instance' self @ ''/services/mtm/v1/oauth2/token'') (apitoken self)
                      (proxies self) (Reply a)]"
      "\<not> http_error a" "json_path a [K ''access_token''] = Inr (JStr tok)"
      "ev = Api m u (Some [(''Authorization'', ''Bearer '' @ tok)]) p ps d st rp"
      "length (filter is_auth xs) = Suc (length (filter (\<lambda>e. step_of self e = Some Poll) xs))"
    unfolding reauthenticated_def by blast
  show ?thesis
    unfolding reauthenticated_def
    apply (rule exI [of _ "front @ xs'"])
    apply (rule exI [of _ a])
    apply (rule exI [of _ tok])
    apply (rule exI [of _ m])
    apply (rule exI [of _ u])
    apply (rule exI [of _ p])
    apply (rule exI [of _ ps])
    apply (rule exI [of _ d])
    apply (rule exI [of _ st])
    apply (rule exI [of _ rp])
    using h assms(2) by simp
qed

lemma reauthenticated_first:
  assumes "\<not> http_error a" and "json_path a [K ''access_token''] = Inr (JStr tok)"
  shows "reauthenticated self
     [Auth (instance' self @ ''/services/mtm/v1/oauth2/token'') (apitoken self) (proxies self)
        (Reply a)]
     (Api m u (Some [(''Authorization'', ''Bearer '' @ tok)]) p ps d st rp)"
  unfolding reauthenticated_def
  apply (rule exI [of _ "[]"])
  apply (rule exI [of _ a])
  apply (rule exI [of _ tok])
  using assms by auto

lemma cut_round_reauthenticated:
  assumes "cut_round self u e tr" and "tr = xs @ ev # ys" and "step_of self ev = Some Poll"
  shows "reauthenticated self xs ev"
proof -
  from assms(1) consider rp where
      "tr = [Auth (instance' self @ ''/services/mtm/v1/oauth2/token'') (apitoken self)
               (proxies self) rp]"
    | a tok b where
      "tr = [Auth (instance' self @ ''/services/mtm/v1/oauth2/token'') (apitoken self)
               (proxies self) (Reply a),
             Api ''GET'' u (Some [(''Authorization'', ''Bearer '' @ tok)]) (proxies self)
               None None False b]"
      "\<not> http_error a" "json_path a [K ''access_token''] = Inr (JStr tok)"
    unfolding cut_round_def by blast
  then show ?thesis
  proof cases
    case 1
    with assms(2,3) show ?thesis
      by (auto simp: Cons_eq_append_conv append_eq_Cons_conv)
  next
    case 2
    from 2(1) assms(2,3) have "xs = [Auth (instance' self @ ''/services/mtm/v1/oauth2/token'')
        (apitoken self) (proxies self) (Reply a)] \<and>
      ev = Api ''GET'' u (Some [(''Authorization'', ''Bearer '' @ tok)]) (proxies self)
        None None False b"
      by (auto simp: Cons_eq_append_conv append_eq_Cons_conv)
    with reauthenticated_first [OF 2(2,3)] show ?thesis
      by simp
  qed
qed

lemma full_round_reauthenticated:
  assumes "full_round self u r1" and "r1 @ rest = xs @ ev # ys" and "step_of self ev = Some Poll"
  shows "reauthenticated self xs ev \<or> (\<exists>xs2. xs = r1 @ xs2 \<and> rest = xs2 @ ev # ys)"
proof -
  from assms(1) obtain a tok b x where
    r1: "r1 = [Auth (instance' self @ ''/services/mtm/v1/oauth2/token'') (apitoken self)
                 (proxies self) (Reply a),
               Api ''GET'' u (Some [(''Authorization'', ''Bearer '' @ tok)]) (proxies self)
                 None None False (Reply b),
               Print x, Sleep 5]"
      and ok: "\<not> http_error a" "json_path a [K ''access_token''] = Inr (JStr tok)"
    unfolding full_round_def by blast
  from assms(2,3) r1 consider
      "xs = [Auth (instance' self @ ''/services/mtm/v1/oauth2/token'') (apitoken self)
               (proxies self) (Reply a)]"
      "ev = Api ''GET'' u (Some [(''Authorization'', ''Bearer '' @ tok)]) (proxies self)
               None None False (Reply b)"
    | xs2 where "xs = r1 @ xs2" "rest = xs2 @ ev # ys"
    by (auto simp: Cons_eq_append_conv append_eq_Cons_conv)
  then show ?thesis
  proof cases
    case 1
    with reauthenticated_first [OF ok] show ?thesis
      by simp
  next
    case 2
    then show ?thesis
      by blast
  qed
qed

lemma full_round_balance:
  assumes "full_round self (instance' self @ base_path self @ ''/jobs/'' @ x) r1"
  shows "length (filter is_auth r1) = length (filter (\<lambda>e. step_of self e = Some Poll) r1)"
  using assms unfolding full_round_def by auto

lemma rounds_reauthenticated:
  assumes "\<forall>r\<in>set rs. full_round self (instance' self @ base_path self @ ''/jobs/'' @ x) r"
    and "case eo of None \<Rightarrow> tr = []
         | Some e \<Rightarrow> cut_round self (instance' self @ base_path self @ ''/jobs/'' @ x) e tr"
    and "concat rs @ tr = xs @ ev # ys" and "step_of self ev = Some Poll"
  shows "reauthenticated self xs ev"
  using assms
proof (induction rs arbitrary: xs)
  case Nil
  then show ?case
    by (cases eo) (auto intro: cut_round_reauthenticated)
next
  case (Cons r1 rs)
  let ?u = "instance' self @ base_path self @ ''/jobs/'' @ x"
  from Cons.prems(1) have r1: "full_round self ?u r1"
    by simp
  from Cons.prems(3) have "r1 @ (concat rs @ tr) = xs @ ev # ys"
    by simp
  from full_round_reauthenticated [OF r1 this Cons.prems(4)] show ?case
  proof
    assume "reauthenticated self xs ev"
    then show ?thesis .
  next
    assume "\<exists>xs2. xs = r1 @ xs2 \<and> concat rs @ tr = xs2 @ ev # ys"
    then obtain xs2 where x2: "xs = r1 @ xs2" "concat rs @ tr = xs2 @ ev # ys"
      by blast
    from Cons.prems(1) have "\<forall>r\<in>set rs. full_round self ?u r"
      by simp
    from Cons.IH [OF this Cons.prems(2) x2(2) Cons.prems(4)]
    have "reauthenticated self xs2 ev" .
    from reauthenticated_shift [OF this full_round_balance [OF r1]] x2(1) show ?thesis
      by simp
  qed
qed

lemma poll_phase_reauthenticated:
  assumes "poll_phase self eo pre" and "pre = xs @ ev # ys" and "step_of self ev = Some Poll"
  shows "reauthenticated self xs ev"
proof -
  from assms(1) obtain rp0 mid evs where
    h: "pre = Print [S ''Creating snapshot...''] #
              Api ''POST'' (instance' self @ base_path self @ ''/exports/fullExport'')
                (header self) (proxies self) (Some [(''exportType'', JStr ''SNAPSHOT'')]) None
                False rp0 # mid @ evs"
      "\<forall>e\<in>set mid. \<exists>x. e = Print x"
      "(evs = [] \<and> (\<exists>e. eo = Some e \<and> (\<forall>c. reply_failure rp0 = Some c \<longrightarrow> e = HTTPError c))) \<or>
       (reply_failure rp0 = None \<and>
        (\<exists>x. loop_trace self (instance' self @ base_path self @ ''/jobs/'' @ x) eo evs))"
    unfolding poll_phase_def by blast
  let ?front = "Print [S ''Creating snapshot...''] #
              Api ''POST'' (instance' self @ base_path self @ ''/exports/fullExport'')
                (header self) (proxies self) (Some [(''exportType'', JStr ''SNAPSHOT'')]) None
                False rp0 # mid"
  have mid: "step_of self e = None \<and> \<not> is_auth e" if "e \<in> set mid" for e
    using h(2) that by auto
  have notin: "ev \<notin> set ?front"
    using assms(3) mid by auto
  have bal: "length (filter is_auth ?front) =
      length (filter (\<lambda>e. step_of self e = Some Poll) ?front)"
    using mid by (simp add: filter_empty_conv [THEN iffD2])
  have "?front @ evs = xs @ ev # ys"
    using h(1) assms(2) by simp
  from split_in_suffix [OF this notin] obtain xs2 where
    x2: "xs = ?front @ xs2" "evs = xs2 @ ev # ys"
    by blast
  with h(3) obtain x where "loop_trace self (instance' self @ base_path self @ ''/jobs/'' @ x) eo evs"
    by auto
  then obtain rs tr where
    l: "evs = concat rs @ tr"
      "\<forall>r\<in>set rs. full_round self (instance' self @ base_path self @ ''/jobs/'' @ x) r"
      "case eo of None \<Rightarrow> tr = []
       | Some e \<Rightarrow> cut_round self (instance' self @ base_path self @ ''/jobs/'' @ x) e tr"
    unfolding loop_trace_def by blast
  from rounds_reauthenticated [OF l(2,3) _ assms(3), of xs2 ys] l(1) x2(2)
  have "reauthenticated self xs2 ev"
    by simp
  from reauthenticated_shift [OF this bal] x2(1) show ?thesis
    by simp
qed


text \<open>
  Claim C8. In every run of \<open>take_snapshot\<close>, the event just before a status poll is a
  token exchange that succeeded, and the poll is sent with the bearer token that very
  exchange returned. Before the poll there is one token exchange more than there are
  earlier polls: the \<open>n\<close>-th poll follows the \<open>n\<close>-th re-authentication.
\<close>

theorem status_poll_follows_reauthentication:
  assumes run: "take_snapshot self w = (r, self', w')"
    and dec: "events_since w w' = xs @ Api m u h p ps d st rp # ys"
    and step: "step_of self (Api m u h p ps d st rp) = Some Poll"
  shows "\<exists>xs' a tok.
           xs = xs' @ [Auth (instance' self @ ''/services/mtm/v1/oauth2/token'') (apitoken self)
                         (proxies self) (Reply a)] \<and>
           \<not> http_error a \<and> json_path a [K ''access_token''] = Inr (JStr tok) \<and>
           h = Some [(''Authorization'', ''Bearer '' @ tok)] \<and>
           length (filter is_auth xs) =
             Suc (length (filter (\<lambda>e. step_of self e = Some Poll) xs))"
proof -
  let ?ev = "Api m u h p ps d st rp"
  have main: "reauthenticated self xs ?ev"
    if "poll_phase self eo pre" "events_since w w' = pre @ post"
      "\<forall>e\<in>set post. step_of self e \<noteq> Some Poll" for eo pre post
  proof -
    from that(3) step have "?ev \<notin> set post"
      by auto
    from split_in_prefix [OF that(2) [unfolded dec, symmetric] this] obtain ys2 where "pre = xs @ ?ev # ys2"
      by blast
    from poll_phase_reauthenticated [OF that(1) this step] show ?thesis .
  qed
  have "reauthenticated self xs ?ev"
    using run
  proof (cases rule: take_snapshot_cases)
    case (raised pre e)
    show ?thesis
      by (rule main [OF raised(3), of "[]"]) (simp_all add: raised(2))
  next
    case (timed_out pre)
    show ?thesis
      by (rule main [OF timed_out(3) timed_out(2)]) simp
  next
    case (meta_raise pre s5 rp' e)
    show ?thesis
      by (rule main [OF meta_raise(1) meta_raise(6)])
        (simp add: export_event_steps [OF meta_raise(2)])
  next
    case (not_completed pre s5 data s k)
    show ?thesis
      by (rule main [OF not_completed(1) not_completed(10)])
        (simp add: export_event_steps [OF not_completed(2)])
  next
    case (no_url pre s5 data k)
    show ?thesis
      by (rule main [OF no_url(1) no_url(9)])
        (simp add: export_event_steps [OF no_url(2)])
  next
    case (download_raise pre s5 data k ws h' rp' e)
    show ?thesis
      by (rule main [OF download_raise(1) download_raise(13)])
        (simp add: export_event_steps [OF download_raise(2)])
  next
    case (download_http pre s5 data k ws h' binary)
    show ?thesis
      by (rule main [OF download_http(1) download_http(11)])
        (simp add: export_event_steps [OF download_http(2)])
  next
    case (saved pre s5 data k ws h' binary fn)
    show ?thesis
      by (rule main [OF saved(1) saved(11)])
        (simp add: export_event_steps [OF saved(2)])
  qed
  then show ?thesis
    unfolding reauthenticated_def by auto
qed

theorem status_poll_follows_reauthentication_witness:
  "events_since
     (start (script [trigger_reply, token_reply, status_reply ''DONE'', export_reply ''FAILED'']))
     (snd (snd (take_snapshot example_self
        (start (script [trigger_reply, token_reply, status_reply ''DONE'', export_reply ''FAILED''])))))
   = [Print [S ''Creating snapshot...''],
      Api ''POST'' ''https://h/services/pathfinder/v1/exports/fullExport'' None None
        (Some [(''exportType'', JStr ''SNAPSHOT'')]) None False trigger_reply,
      Print [S ''Job ID: '', J (JStr ''j1'')],
      Print [S ''Waiting for snapshot to complete, this may take some time...''],
      Auth ''https://h/services/mtm/v1/oauth2/token'' ''t'' None token_reply] @
     Api ''GET'' ''https://h/services/pathfinder/v1/jobs/j1/status''
       (Some [(''Authorization'', ''Bearer tok'')]) None None None False (status_reply ''DONE'') #
     [Print [S ''Status: '', J (JStr ''DONE''), S ''Progress:'', J (JNum 1), S ''/'', J (JNum 2)],
      Sleep 5,
      metadata_event (example_self\<lparr>header := Some [(''Authorization'', ''Bearer tok'')]\<rparr>)
        (export_reply ''FAILED''),
      Print [S ''Snapshot not completed. Status: '', J (JStr ''FAILED'')]] \<and>
   (\<exists>xs' a tok.
      [Print [S ''Creating snapshot...''],
       Api ''POST'' ''https://h/services/pathfinder/v1/exports/fullExport'' None None
         (Some [(''exportType'', JStr ''SNAPSHOT'')]) None False trigger_reply,
       Print [S ''Job ID: '', J (JStr ''j1'')],
       Print [S ''Waiting for snapshot to complete, this may take some time...''],
       Auth ''https://h/services/mtm/v1/oauth2/token'' ''t'' None token_reply] =
      xs' @ [Auth (instance' example_self @ ''/services/mtm/v1/oauth2/token'')
               (apitoken example_self) (proxies example_self) (Reply a)] \<and>
      \<not> http_error a \<and> json_path a [K ''access_token''] = Inr (JStr tok) \<and>
      Some [(''Authorization'', ''Bearer tok'')] = Some [(''Authorization'', ''Bearer '' @ tok)] \<and>
      length (filter is_auth
        [Print [S ''Creating snapshot...''],
         Api ''POST'' ''https://h/services/pathfinder/v1/exports/fullExport'' None None
           (Some [(''exportType'', JStr ''SNAPSHOT'')]) None False trigger_reply,
         Print [S ''Job ID: '', J (JStr ''j1'')],
         Print [S ''Waiting for snapshot to complete, this may take some time...''],
         Auth ''https://h/services/mtm/v1/oauth2/token'' ''t'' None token_reply]) =
      Suc (length (filter (\<lambda>e. step_of example_self e = Some Poll)
        [Print [S ''Creating snapshot...''],
         Api ''POST'' ''https://h/services/pathfinder/v1/exports/fullExport'' None None
           (Some [(''exportType'', JStr ''SNAPSHOT'')]) None False trigger_reply,
         Print [S ''Job ID: '', J (JStr ''j1'')],
         Print [S ''Waiting for snapshot to complete, this may take some time...''],
         Auth ''https://h/services/mtm/v1/oauth2/token'' ''t'' None token_reply])))"
proof -
  let ?w = "start (script [trigger_reply, token_reply, status_reply ''DONE'', export_reply ''FAILED''])"
  let ?X = "take_snapshot example_self ?w"
  let ?xs = "[Print [S ''Creating snapshot...''],
      Api ''POST'' ''https://h/services/pathfinder/v1/exports/fullExport'' None None
        (Some [(''exportType'', JStr ''SNAPSHOT'')]) None False trigger_reply,
      Print [S ''Job ID: '', J (JStr ''j1'')],
      Print [S ''Waiting for snapshot to complete, this may take some time...''],
      Auth ''https://h/services/mtm/v1/oauth2/token'' ''t'' None token_reply]"
  let ?ys = "[Print [S ''Status: '', J (JStr ''DONE''), S ''Progress:'', J (JNum 1), S ''/'', J (JNum 2)],
      Sleep 5,
      metadata_event (example_self\<lparr>header := Some [(''Authorization'', ''Bearer tok'')]\<rparr>)
        (export_reply ''FAILED''),
      Print [S ''Snapshot not completed. Status: '', J (JStr ''FAILED'')]]"
  have run: "?X = (fst ?X, fst (snd ?X), snd (snd ?X))"
    by simp
  have dec: "events_since ?w (snd (snd ?X)) =
      ?xs @ Api ''GET'' ''https://h/services/pathfinder/v1/jobs/j1/status''
       (Some [(''Authorization'', ''Bearer tok'')]) None None None False (status_reply ''DONE'') # ?ys"
    by (simp add: run_simps metadata_event_def)
  have step: "step_of example_self (Api ''GET'' ''https://h/services/pathfinder/v1/jobs/j1/status''
       (Some [(''Authorization'', ''Bearer tok'')]) None None None False (status_reply ''DONE'')) =
     Some Poll"
    by (simp add: example_self_def step_of.simps)
  show ?thesis
    by (rule conjI) (rule dec, rule status_poll_follows_reauthentication [OF run dec step])
qed


section \<open>\<open>download_surveys\<close>\<close>

lemma replay_append [simp]: "replay (xs @ ys) fs = replay ys (replay xs fs)"
proof (induction xs arbitrary: fs)
  case (Cons e es)
  then show ?case
    by (cases e) (simp_all add: fun_upd_def)
qed simp

lemma clean_Nil [simp]: "clean r []"
  by (simp add: clean_def)

lemma clean_quiet:
  assumes "clean None evs" and "ev \<in> set evs"
  shows "failure ev = None"
proof (cases "failure ev")
  case (Some c)
  from assms(2) obtain xs ys where "evs = xs @ ev # ys"
    by (auto simp: in_set_conv_decomp)
  with assms(1) Some have "None = Some (HTTPError c)"
    unfolding clean_def by blast
  then show ?thesis
    by simp
qed simp

lemma clean_append:
  assumes "\<forall>e\<in>set front. failure e = None" and "clean r evs"
  shows "clean r (front @ evs)"
  unfolding clean_def
proof (intro allI impI, elim conjE)
  fix xs ev ys c
  assume eq: "front @ evs = xs @ ev # ys" and f: "failure ev = Some c"
  with assms(1) have "ev \<notin> set front"
    by auto
  from split_in_suffix [OF eq this] obtain xs2 where "evs = xs2 @ ev # ys"
    by blast
  with assms(2) f show "ys = [] \<and> r = Some (HTTPError c)"
    unfolding clean_def by blast
qed

lemma clean_last:
  assumes "\<forall>e\<in>set front. failure e = None"
    and "\<forall>c. failure ev = Some c \<longrightarrow> r = Some (HTTPError c)"
  shows "clean r (front @ [ev])"
  unfolding clean_def
proof (intro allI impI, elim conjE)
  fix xs ev' ys c
  assume eq: "front @ [ev] = xs @ ev' # ys" and f: "failure ev' = Some c"
  with assms(1) have "ev' \<notin> set front"
    by auto
  from split_in_suffix [OF eq this] obtain xs2 where "[ev] = xs2 @ ev' # ys"
    by blast
  then have "ev' = ev \<and> ys = []"
    by (auto simp: Cons_eq_append_conv)
  with assms(2) f show "ys = [] \<and> r = Some (HTTPError c)"
    by simp
qed

lemma effectI:
  assumes "trace w' = trace w @ evs" "clean r evs" "files w' = replay evs (files w)"
  shows "effect w r w'"
  unfolding effect_def using assms by blast

lemma effect_refl: "effect w r w"
  by (rule effectI [of _ _ "[]"]) simp_all

lemma effect_trans:
  assumes "effect w None w1" and "effect w1 r w'"
  shows "effect w r w'"
proof -
  from assms(1) obtain evs1 where
    a: "trace w1 = trace w @ evs1" "clean None evs1" "files w1 = replay evs1 (files w)"
    unfolding effect_def by blast
  from assms(2) obtain evs2 where
    b: "trace w' = trace w1 @ evs2" "clean r evs2" "files w' = replay evs2 (files w1)"
    unfolding effect_def by blast
  have q: "\<forall>e\<in>set evs1. failure e = None"
    using clean_quiet [OF a(2)] by simp
  show ?thesis
    by (rule effectI [of _ _ "evs1 @ evs2"])
      (use a b clean_append [OF q b(2)] in simp_all)
qed

lemma effect_print: "effect w None (print x w)"
  by (rule effectI [of _ _ "[Print x]"])
    (simp_all add: clean_last [of "[]", simplified])

lemma effect_write: "effect w None (write_file f cs w)"
  by (rule effectI [of _ _ "[FileWrite f (concat cs)]"])
    (simp_all add: clean_last [of "[]", simplified])

lemma effect_access:
  assumes "access_leanix_api self w url ''GET'' data params stream = (r, w')"
  shows "effect w (err_of r) w'"
proof -
  let ?ev = "Api ''GET'' url (header self) (proxies self) params data stream (next_reply w)"
  from assms have r: "r = (case next_reply w of NoReply \<Rightarrow> Inl ConnectionError
      | Reply resp \<Rightarrow> if http_error resp then Inl (HTTPError (status_code resp)) else Inr resp)"
    and w': "w' = sent ?ev w"
    by (simp_all add: access_GET_sent)
  have "\<forall>c. failure ?ev = Some c \<longrightarrow> err_of r = Some (HTTPError c)"
    by (cases "next_reply w") (simp_all add: r)
  then have "clean (err_of r) ([] @ [?ev])"
    by (intro clean_last) simp_all
  then show ?thesis
    by (intro effectI [of _ _ "[?ev]"]) (simp_all add: w')
qed

lemma effect_raise:
  assumes "effect w None w'" shows "effect w e w'"
proof -
  from assms obtain evs where
    a: "trace w' = trace w @ evs" "clean None evs" "files w' = replay evs (files w)"
    unfolding effect_def by blast
  have "failure ev = None" if "ev \<in> set evs" for ev
    using clean_quiet [OF a(2) that] .
  then have "clean e evs"
    unfolding clean_def by auto
  with a show ?thesis
    by (intro effectI [of _ _ evs])
qed

lemma runs_loop_effect:
  "runs_loop self w params survey runs = (r, w') \<Longrightarrow> effect w (err_of r) w'"
proof (induction runs arbitrary: w)
  case Nil
  then show ?case
    by (auto simp: effect_refl)
next
  case (Cons run runs)
  show ?case
  proof (cases "as_str run")
    case (Inl e)
    with Cons.prems show ?thesis
      by (auto simp: effect_refl)
  next
    case (Inr rid)
    define w1 where "w1 = print [S (''Survey '' @ survey @ '' - Run '' @ rid)] w"
    obtain ra w2 where acc: "access_leanix_api self w1
        (instance' self @ poll_url self @ ''/pollRuns/'' @ rid @ ''/poll_results.xlsx'') ''GET''
        None (Some params) False = (ra, w2)"
      by (cases "access_leanix_api self w1
        (instance' self @ poll_url self @ ''/pollRuns/'' @ rid @ ''/poll_results.xlsx'') ''GET''
        None (Some params) False") auto
    have e1: "effect w None w1"
      unfolding w1_def by (rule effect_print)
    note e2 = effect_access [OF acc]
    show ?thesis
    proof (cases ra)
      case (Inl e)
      with Cons.prems Inr acc have "r = Inl e" "w' = w2"
        by (simp_all add: Let_def w1_def)
      with effect_trans [OF e1 e2] Inl show ?thesis
        by simp
    next
      case fl: (Inr fl)
      from e2 fl have e2': "effect w1 None w2"
        by simp
      show ?thesis
      proof (cases "config_get (config self) ''OPTIONAL'' ''SURVEY_FILENAME''")
        case (Inl e)
        with Cons.prems Inr acc fl have "w' = w2"
          by (simp_all add: Let_def w1_def)
        with effect_raise [OF effect_trans [OF e1 e2']] show ?thesis
          by simp
      next
        case tmpl: (Inr template)
        define w3 where "w3 = write_file
          (str_replace (str_replace (str_replace template ''{cdate}'' (get_today_date w2))
             ''{id}'' survey) ''{run}'' rid) [content fl] w2"
        from Cons.prems Inr acc fl tmpl have "runs_loop self w3 params survey runs = (r, w')"
          by (simp add: Let_def w1_def w3_def)
        note e4 = Cons.IH [OF this]
        have e3: "effect w2 None w3"
          unfolding w3_def by (rule effect_write)
        from effect_trans [OF effect_trans [OF effect_trans [OF e1 e2'] e3] e4]
        show ?thesis .
      qed
    qed
  qed
qed

lemma surveys_loop_effect:
  "surveys_loop self w params surveys = (r, w') \<Longrightarrow> effect w (err_of r) w'"
proof (induction surveys arbitrary: w)
  case Nil
  then show ?case
    by (auto simp: effect_refl)
next
  case (Cons survey surveys)
  show ?case
  proof (cases "as_str survey")
    case (Inl e)
    with Cons.prems show ?thesis
      by (auto simp: effect_refl)
  next
    case (Inr sid)
    obtain ra w1 where acc: "access_leanix_api self w
        (instance' self @ poll_url self @ ''/polls/'' @ sid @ ''/pollRuns'') ''GET''
        None (Some params) False = (ra, w1)"
      by (cases "access_leanix_api self w
        (instance' self @ poll_url self @ ''/polls/'' @ sid @ ''/pollRuns'') ''GET''
        None (Some params) False") auto
    note e1 = effect_access [OF acc]
    show ?thesis
    proof (cases ra)
      case (Inl e)
      with Cons.prems Inr acc have "r = Inl e" "w' = w1"
        by (simp_all add: Let_def)
      with e1 Inl show ?thesis
        by simp
    next
      case resp: (Inr resp)
      from e1 resp have e1': "effect w None w1"
        by simp
      have raise: "effect w (err_of r) w'" if "w' = w1"
        using effect_raise [OF e1'] that by simp
      show ?thesis
      proof (cases "json_path resp [K ''data'']")
        case (Inl e)
        with Cons.prems Inr acc resp have "w' = w1"
          by (simp_all add: Let_def)
        then show ?thesis by (rule raise)
      next
        case runs: (Inr runs)
        show ?thesis
        proof (cases "py_iter runs")
          case (Inl e)
          with Cons.prems Inr acc resp runs have "w' = w1"
            by (simp_all add: Let_def)
          then show ?thesis by (rule raise)
        next
          case ys: (Inr ys)
          show ?thesis
          proof (cases "ids_of ys")
            case (Inl e)
            with Cons.prems Inr acc resp runs ys have "w' = w1"
              by (simp_all add: Let_def)
            then show ?thesis by (rule raise)
          next
            case ids: (Inr run_ids)
            obtain rr w2 where rl: "runs_loop self w1 params sid run_ids = (rr, w2)"
              by (cases "runs_loop self w1 params sid run_ids") auto
            note e2 = runs_loop_effect [OF rl]
            show ?thesis
            proof (cases rr)
              case (Inl e)
              with Cons.prems Inr acc resp runs ys ids rl have "r = Inl e" "w' = w2"
                by (simp_all add: Let_def)
              with effect_trans [OF e1' e2] Inl show ?thesis
                by simp
            next
              case u: (Inr u)
              with Cons.prems Inr acc resp runs ys ids rl
              have "surveys_loop self w2 params surveys = (r, w')"
                by (simp add: Let_def)
              note e3 = Cons.IH [OF this]
              from e2 u have "effect w1 None w2"
                by simp
              from effect_trans [OF effect_trans [OF e1' this] e3]
              show ?thesis .
            qed
          qed
        qed
      qed
    qed
  qed
qed

lemma download_surveys_try_effect:
  assumes "download_surveys_try self w params = (r, w')"
  shows "effect w (err_of r) w'"
proof -
  obtain ra w1 where acc: "access_leanix_api self w
      (instance' self @ poll_url self @ ''/polls'') ''GET'' None (Some params) False = (ra, w1)"
    by (cases "access_leanix_api self w
      (instance' self @ poll_url self @ ''/polls'') ''GET'' None (Some params) False") auto
  note e1 = effect_access [OF acc]
  show ?thesis
  proof (cases ra)
    case (Inl e)
    with assms acc have "r = Inl e" "w' = w1"
      by (simp_all add: download_surveys_try_def)
    with e1 Inl show ?thesis
      by simp
  next
    case resp: (Inr resp)
    from e1 resp have e1': "effect w None w1"
      by simp
    have raise: "effect w (err_of r) w'" if "w' = w1"
      using effect_raise [OF e1'] that by simp
    show ?thesis
    proof (cases "json_path resp [K ''data'']")
      case (Inl e)
      with assms acc resp have "w' = w1"
        by (simp_all add: download_surveys_try_def)
      then show ?thesis by (rule raise)
    next
      case sv: (Inr survey_ids)
      show ?thesis
      proof (cases "py_iter survey_ids")
        case (Inl e)
        with assms acc resp sv have "w' = w1"
          by (simp_all add: download_surveys_try_def)
        then show ?thesis by (rule raise)
      next
        case xs: (Inr xs)
        show ?thesis
        proof (cases "ids_of xs")
          case (Inl e)
          with assms acc resp sv xs have "w' = w1"
            by (simp_all add: download_surveys_try_def)
          then show ?thesis by (rule raise)
        next
          case (Inr ids)
          with assms acc resp sv xs have "surveys_loop self w1 params ids = (r, w')"
            by (simp add: download_surveys_try_def)
          from effect_trans [OF e1' surveys_loop_effect [OF this]] show ?thesis .
        qed
      qed
    qed
  qed
qed

lemma replay_failure:
  assumes "failure ev = Some c" shows "replay (ev # es) fs = replay es fs"
  using assms by (cases ev) simp_all

text \<open>
  Claim C7. In every run of \<open>download_surveys\<close>, an exchange answered with an HTTP error
  code (the survey listing, a run listing or a result download: the method makes no other
  exchange) is followed by the report of that error and by nothing else, so no further
  survey or run is requested; the method returns \<open>None\<close>, the error is not raised again;
  and the files at the end are the files as the writes made before that exchange left
  them, so no result file written for an earlier run is removed or changed.
\<close>

theorem http_error_aborts_download_surveys:
  assumes run: "download_surveys self w = (r, w')"
    and dec: "events_since w w' = xs @ ev # ys"
    and f: "failure ev = Some c"
  shows "r = Inr RetNone \<and>
    ys = [Print [S ''Error while downloading surveys: '', E (HTTPError c)]] \<and>
    files w' = replay xs (files w)"
proof -
  let ?p0 = "Print [S ''Downloading surveys...'']"
  define w0 where "w0 = print [S ''Downloading surveys...''] w"
  have w0: "trace w0 = trace w @ [?p0]" "files w0 = files w"
    by (simp_all add: w0_def)
  have nf: "ev \<notin> set [?p0]"
    using f by auto
  show ?thesis
  proof (cases "config_get (config self) ''MANDATORY'' ''WORKSPACEID''")
    case (Inl e)
    with run have "w' = w0"
      by (simp add: download_surveys_def w0_def)
    with w0 have "events_since w w' = [?p0]"
      by (simp add: events_since_def)
    with dec nf show ?thesis
      by (auto simp: Cons_eq_append_conv)
  next
    case (Inr ws)
    obtain rt w1 where t: "download_surveys_try self w0 [(''workspaceId'', JStr ws)] = (rt, w1)"
      by (cases "download_surveys_try self w0 [(''workspaceId'', JStr ws)]") auto
    from download_surveys_try_effect [OF t] obtain evs where
      e: "trace w1 = trace w0 @ evs" "clean (err_of rt) evs" "files w1 = replay evs (files w0)"
      unfolding effect_def by blast
    define tail where "tail = (case rt of
        Inl e \<Rightarrow> if is_HTTPError e then [Print [S ''Error while downloading surveys: '', E e]]
                 else []
      | Inr u \<Rightarrow> [])"
    from run Inr t have w': "trace w' = trace w1 @ tail" "files w' = files w1"
      and r: "r = (case rt of Inl e \<Rightarrow> if is_HTTPError e then Inr RetNone else Inl e
                    | Inr u \<Rightarrow> Inr RetNone)"
      by (auto simp: download_surveys_def w0_def [symmetric] tail_def split: sum.splits if_splits)
    from dec w'(1) e(1) w0(1) have whole: "[?p0] @ (evs @ tail) = xs @ ev # ys"
      by (simp add: events_since_def)
    from split_in_suffix [OF whole nf] obtain xs2 where
      xs: "xs = [?p0] @ xs2" and rest: "evs @ tail = xs2 @ ev # ys"
      by blast
    have "ev \<notin> set tail"
      using f by (auto simp: tail_def split: sum.splits if_splits)
    from split_in_prefix [OF rest this] obtain ys2 where evs: "evs = xs2 @ ev # ys2"
      by blast
    with e(2) f have ys2: "ys2 = []" and rt: "err_of rt = Some (HTTPError c)"
      unfolding clean_def by blast+
    from rt have rt': "rt = Inl (HTTPError c)"
      by (cases rt) simp_all
    from rest evs ys2 have ys: "ys = tail"
      by simp
    have "files w' = replay xs2 (files w)"
      using w'(2) e(3) w0(2) evs ys2 replay_failure [OF f, of "[]"] by simp
    with xs r ys rt' show ?thesis
      by (simp add: tail_def)
  qed
qed

theorem http_error_aborts_download_surveys_witness:
  "fst (download_surveys example_self (start surveys_script)) = Inr RetNone \<and>
   files (snd (download_surveys example_self (start surveys_script))) =
     [''survey_S1_R1_2024-03-05.xlsx'' \<mapsto> ''xlsx'']"
proof -
  let ?w = "start surveys_script"
  let ?X = "download_surveys example_self ?w"
  let ?ps = "Some [(''workspaceId'', JStr ''ws'')]"
  let ?xs = "[Print [S ''Downloading surveys...''],
    Api ''GET'' ''https://h/services/poll/v2/polls'' None None ?ps None False
      (ok_json (JObj [(''data'', JArr [JObj [(''id'', JStr ''S1'')],
                                       JObj [(''id'', JStr ''S2'')]])])),
    Api ''GET'' ''https://h/services/poll/v2/polls/S1/pollRuns'' None None ?ps None False
      (ok_json (JObj [(''data'', JArr [JObj [(''id'', JStr ''R1'')]])])),
    Print [S ''Survey S1 - Run R1''],
    Api ''GET'' ''https://h/services/poll/v2/pollRuns/R1/poll_results.xlsx'' None None ?ps None
      False (Reply (Response 200 None ''xlsx'')),
    FileWrite ''survey_S1_R1_2024-03-05.xlsx'' ''xlsx'']"
  let ?ev = "Api ''GET'' ''https://h/services/poll/v2/polls/S2/pollRuns'' None None ?ps None
    False (Reply (Response 500 None []))"
  let ?ys = "[Print [S ''Error while downloading surveys: '', E (HTTPError 500)]]"
  have run: "?X = (fst ?X, snd ?X)"
    by simp
  have dec: "events_since ?w (snd ?X) = ?xs @ ?ev # ?ys"
    by (simp add: download_surveys_def download_surveys_try_def surveys_script_def
        run_simps file_simps)
  have f: "failure ?ev = Some 500"
    by (simp add: http_error_def)
  from http_error_aborts_download_surveys [OF run dec f]
  show ?thesis
    by (simp add: start_def)
qed

end
